theory Spec2Isabelle
  imports Main "HOL-Library.Char_ord" "HOL-Library.List_Lexorder"
begin

chapter \<open>The program\<close>

section \<open>Strings, runes and digits\<close>

text \<open>
  A Go string is a sequence of bytes, here a \<^typ>\<open>string\<close> (a list of 8-bit
  characters). \<^verbatim>\<open>s < t\<close> on Go strings is the lexicographic order of the bytes,
  which is the order of \<^typ>\<open>char list\<close> from Char-ord and List-Lexorder.
  \<^verbatim>\<open>s[:i]\<close> is \<open>take i s\<close> and \<^verbatim>\<open>s[i:]\<close> is \<open>drop i s\<close>; the program only
  slices at indices between 0 and the length.

  A rune (\<^verbatim>\<open>int32\<close>) is a Unicode code point. Ranging over a string decodes UTF-8; a byte that
  does not start a well-formed encoding is decoded as U+FFFD of width 1.
\<close>

type_synonym rune = int

definition RuneError :: rune where
  "RuneError = 0xFFFD"

definition byte :: "char \<Rightarrow> int" where
  "byte c = of_char c"

text \<open>\<^verbatim>\<open>utf8.DecodeRuneInString\<close>: the first rune of the string and its width in bytes.\<close>

fun DecodeRuneInString :: "string \<Rightarrow> rune \<times> nat" where
  "DecodeRuneInString [] = (RuneError, 0)"
| "DecodeRuneInString (c # cs) =
     (let s0 = byte c in
      if s0 < 0x80 then (s0, 1)
      else if s0 < 0xC2 \<or> 0xF4 < s0 then (RuneError, 1)
      else
        let sz = (if s0 < 0xE0 then 2 else if s0 < 0xF0 then 3 else (4::nat));
            lo = (if s0 = 0xE0 then 0xA0 else if s0 = 0xF0 then 0x90 else 0x80);
            hi = (if s0 = 0xED then 0x9F else if s0 = 0xF4 then 0x8F else 0xBF)
        in if length (c # cs) < sz then (RuneError, 1)
           else
             let s1 = byte (cs ! 0) in
             if s1 < lo \<or> hi < s1 then (RuneError, 1)
             else if sz \<le> 2 then ((s0 mod 32) * 64 + s1 mod 64, 2)
             else
               let s2 = byte (cs ! 1) in
               if s2 < 0x80 \<or> 0xBF < s2 then (RuneError, 1)
               else if sz \<le> 3 then ((s0 mod 16) * 4096 + (s1 mod 64) * 64 + s2 mod 64, 3)
               else
                 let s3 = byte (cs ! 2) in
                 if s3 < 0x80 \<or> 0xBF < s3 then (RuneError, 1)
                 else ((s0 mod 8) * 262144 + (s1 mod 64) * 4096 + (s2 mod 64) * 64
                       + s3 mod 64, 4))"

text \<open>
  The table \<^verbatim>\<open>unicode.Digit\<close> (category Nd) above Latin-1, as ranges of code points
  (Unicode 15.0.0, the version of the Go releases that have the \<^verbatim>\<open>slices\<close> package
  this program imports).
\<close>

definition unicodeNd :: "(rune \<times> rune) list" where
  "unicodeNd =
    [(0x660, 0x669), (0x6F0, 0x6F9), (0x7C0, 0x7C9), (0x966, 0x96F), (0x9E6, 0x9EF),
     (0xA66, 0xA6F), (0xAE6, 0xAEF), (0xB66, 0xB6F), (0xBE6, 0xBEF), (0xC66, 0xC6F),
     (0xCE6, 0xCEF), (0xD66, 0xD6F), (0xDE6, 0xDEF), (0xE50, 0xE59), (0xED0, 0xED9),
     (0xF20, 0xF29), (0x1040, 0x1049), (0x1090, 0x1099), (0x17E0, 0x17E9),
     (0x1810, 0x1819), (0x1946, 0x194F), (0x19D0, 0x19D9), (0x1A80, 0x1A89),
     (0x1A90, 0x1A99), (0x1B50, 0x1B59), (0x1BB0, 0x1BB9), (0x1C40, 0x1C49),
     (0x1C50, 0x1C59), (0xA620, 0xA629), (0xA8D0, 0xA8D9), (0xA900, 0xA909),
     (0xA9D0, 0xA9D9), (0xA9F0, 0xA9F9), (0xAA50, 0xAA59), (0xABF0, 0xABF9),
     (0xFF10, 0xFF19), (0x104A0, 0x104A9), (0x10D30, 0x10D39), (0x11066, 0x1106F),
     (0x110F0, 0x110F9), (0x11136, 0x1113F), (0x111D0, 0x111D9), (0x112F0, 0x112F9),
     (0x11450, 0x11459), (0x114D0, 0x114D9), (0x11650, 0x11659), (0x116C0, 0x116C9),
     (0x11730, 0x11739), (0x118E0, 0x118E9), (0x11950, 0x11959), (0x11C50, 0x11C59),
     (0x11D50, 0x11D59), (0x11DA0, 0x11DA9), (0x11F50, 0x11F59), (0x16A60, 0x16A69),
     (0x16AC0, 0x16AC9), (0x16B50, 0x16B59), (0x1D7CE, 0x1D7FF), (0x1E140, 0x1E149),
     (0x1E2F0, 0x1E2F9), (0x1E4F0, 0x1E4F9), (0x1E950, 0x1E959), (0x1FBF0, 0x1FBF9)]"

text \<open>\<^verbatim>\<open>unicode.IsDigit\<close>: in Latin-1 only 0..9, above it the table.\<close>

definition IsDigit :: "rune \<Rightarrow> bool" where
  "IsDigit r =
     (if r \<le> 0xFF then 0x30 \<le> r \<and> r \<le> 0x39
      else list_ex (\<lambda>(lo, hi). lo \<le> r \<and> r \<le> hi) unicodeNd)"

definition isNonDigit :: "rune \<Rightarrow> bool" where
  "isNonDigit ch = (\<not> IsDigit ch)"

lemma DecodeRuneInString_width: "s \<noteq> [] \<Longrightarrow> DecodeRuneInString s = (r, n) \<Longrightarrow> 1 \<le> n \<and> n \<le> length s"
  by (cases s) (auto simp: Let_def Suc_le_eq split: if_splits)

text \<open>
  \<^verbatim>\<open>strings.IndexFunc\<close>: the byte index of the first rune that satisfies \<open>f\<close>;
  Go's \<open>-1\<close> is \<open>None\<close>.
\<close>

function IndexFunc :: "string \<Rightarrow> (rune \<Rightarrow> bool) \<Rightarrow> nat option" where
  "IndexFunc s f =
     (if s = [] then None
      else case DecodeRuneInString s of
             (r, n) \<Rightarrow> if f r then Some 0
                       else map_option (\<lambda>i. n + i) (IndexFunc (drop n s) f))"
  by pat_completeness auto
termination
  apply (relation "measure (\<lambda>(s, f). length s)")
   apply simp
  subgoal for s f r n
    using DecodeRuneInString_width [of s r n] by (cases s) auto
  done

declare IndexFunc.simps [simp del]

text \<open>
  \<^verbatim>\<open>strconv.Atoi\<close> in base 10 for a 64-bit \<^verbatim>\<open>int\<close>: an optional sign, then at least
  one ASCII digit and nothing else, and a value that fits; otherwise an error
  (\<open>None\<close>).
\<close>

definition asciiDigit :: "char \<Rightarrow> bool" where
  "asciiDigit c = (0x30 \<le> byte c \<and> byte c \<le> 0x39)"

fun digitsValue :: "int \<Rightarrow> string \<Rightarrow> int" where
  "digitsValue n [] = n"
| "digitsValue n (c # cs) = digitsValue (n * 10 + (byte c - 0x30)) cs"

definition Atoi :: "string \<Rightarrow> int option" where
  "Atoi s =
     (let neg = (s \<noteq> [] \<and> hd s = CHR ''-'');
          ds = (if s \<noteq> [] \<and> (hd s = CHR ''-'' \<or> hd s = CHR ''+'') then tl s else s)
      in if ds = [] \<or> \<not> list_all asciiDigit ds then None
         else
           let n = digitsValue 0 ds in
           if neg then (if 2 ^ 63 < n then None else Some (- n))
           else (if 2 ^ 63 \<le> n then None else Some n))"

section \<open>The natural comparator\<close>

datatype panic = CantConvert string

lemma IndexFunc_Some_less: "IndexFunc s f = Some p \<Longrightarrow> p < length s"
proof (induction s f arbitrary: p rule: IndexFunc.induct)
  case (1 s f)
  show ?case
  proof (cases "s = []")
    case True
    with "1.prems" show ?thesis by (simp add: IndexFunc.simps)
  next
    case False
    obtain r n where d: "DecodeRuneInString s = (r, n)" by (cases "DecodeRuneInString s")
    from DecodeRuneInString_width [OF False d] have n: "1 \<le> n" "n \<le> length s" by auto
    show ?thesis
    proof (cases "f r")
      case True
      with "1.prems" False d show ?thesis by (simp add: IndexFunc.simps [of s])
    next
      case nf: False
      with "1.prems" False d obtain q where q: "IndexFunc (drop n s) f = Some q" "p = n + q"
        by (auto simp: IndexFunc.simps [of s])
      from "1.IH" [OF False d [symmetric] nf q(1)] have "q < length (drop n s)" .
      with q(2) n show ?thesis by simp
    qed
  qed
qed

lemma IndexFunc_Some_sat: "IndexFunc s f = Some p \<Longrightarrow> f (fst (DecodeRuneInString (drop p s)))"
proof (induction s f arbitrary: p rule: IndexFunc.induct)
  case (1 s f)
  show ?case
  proof (cases "s = []")
    case True
    with "1.prems" show ?thesis by (simp add: IndexFunc.simps)
  next
    case False
    obtain r n where d: "DecodeRuneInString s = (r, n)" by (cases "DecodeRuneInString s")
    show ?thesis
    proof (cases "f r")
      case True
      with "1.prems" False d show ?thesis by (simp add: IndexFunc.simps [of s])
    next
      case nf: False
      with "1.prems" False d obtain q where q: "IndexFunc (drop n s) f = Some q" "p = n + q"
        by (auto simp: IndexFunc.simps [of s])
      from "1.IH" [OF False d [symmetric] nf q(1)] q(2) show ?thesis
        by (simp add: add.commute)
    qed
  qed
qed

lemma IndexFunc_Some_0: "IndexFunc s f = Some 0 \<Longrightarrow> f (fst (DecodeRuneInString s))"
  using IndexFunc_Some_sat [of s f 0] by simp

lemma digit_run_positive:
  assumes "IndexFunc s IsDigit = Some p"
    and "q = (case IndexFunc (drop p s) isNonDigit of None \<Rightarrow> length (drop p s) | Some i \<Rightarrow> i)"
  shows "0 < q"
proof (cases "IndexFunc (drop p s) isNonDigit")
  case None
  with assms IndexFunc_Some_less [OF assms(1)] show ?thesis by simp
next
  case (Some i)
  have "i \<noteq> 0"
  proof
    assume "i = 0"
    with Some have "isNonDigit (fst (DecodeRuneInString (drop p s)))"
      using IndexFunc_Some_0 by simp
    with IndexFunc_Some_sat [OF assms(1)] show False by (simp add: isNonDigit_def)
  qed
  with Some assms show ?thesis by simp
qed

text \<open>
  \<^verbatim>\<open>naturalLess\<close>: one round of the loop compares the text before the first digit and
  then the digit runs; the loop goes on with what follows the digit runs. A panic is
  the \<open>Inl\<close> result. Both panics format \<^verbatim>\<open>strA[:posA]\<close>.
\<close>

function naturalLess :: "string \<Rightarrow> string \<Rightarrow> panic + bool" where
  "naturalLess strA strB =
     (case IndexFunc strA IsDigit of
        None \<Rightarrow>
          (case IndexFunc strB IsDigit of
             None \<Rightarrow> Inr (strA < strB)
           | Some posB \<Rightarrow> Inr False)
      | Some posA \<Rightarrow>
          (case IndexFunc strB IsDigit of
             None \<Rightarrow> Inr True
           | Some posB \<Rightarrow>
               let subA = take posA strA; subB = take posB strB in
               if subA \<noteq> subB then Inr (subA < subB)
               else
                 let strA1 = drop posA strA; strB1 = drop posB strB;
                     posA1 = (case IndexFunc strA1 isNonDigit of
                                None \<Rightarrow> length strA1 | Some i \<Rightarrow> i);
                     posB1 = (case IndexFunc strB1 isNonDigit of
                                None \<Rightarrow> length strB1 | Some i \<Rightarrow> i)
                 in (case Atoi (take posA1 strA1) of
                       None \<Rightarrow> Inl (CantConvert (take posA1 strA1))
                     | Some valA \<Rightarrow>
                         (case Atoi (take posB1 strB1) of
                            None \<Rightarrow> Inl (CantConvert (take posA1 strA1))
                          | Some valB \<Rightarrow>
                              if valA \<noteq> valB then Inr (valA < valB)
                              else if posA1 \<noteq> posB1 then Inr (posA1 < posB1)
                              else if length strA1 \<le> posA1 \<or> length strB1 \<le> posB1
                                then Inr True
                              else naturalLess (drop posA1 strA1) (drop posB1 strB1)))))"
  by pat_completeness auto
termination
proof (relation "measure (\<lambda>(a, b). length a)")
  show "wf (measure (\<lambda>(a, b). length a))" by simp
next
  fix strA strB :: string and posA posB :: nat and subA subB strA1 strB1 :: string
    and posA1 posB1 :: nat and valA valB :: int
  assume a: "IndexFunc strA IsDigit = Some posA"
    and s: "strA1 = drop posA strA"
    and p: "posA1 = (case IndexFunc strA1 isNonDigit of None \<Rightarrow> length strA1 | Some i \<Rightarrow> i)"
  from digit_run_positive [OF a p [unfolded s]] have "0 < posA1" .
  moreover from IndexFunc_Some_less [OF a] have "0 < length strA" by auto
  ultimately show "((drop posA1 strA1, drop posB1 strB1), (strA, strB)) \<in> measure (\<lambda>(a, b). length a)"
    using s by simp
qed

declare naturalLess.simps [simp del]

section \<open>Paths\<close>

text \<open>
  The program opens files with \<^verbatim>\<open>syscall.O_NOFOLLOW\<close>, so it builds for Unix-like
  systems only: \<^verbatim>\<open>filepath.Separator\<close> is the slash, there are no volume names, and
  the backslash escapes in patterns.
\<close>

definition Separator :: char where
  "Separator = CHR ''/''"

definition IsPathSeparator :: "char \<Rightarrow> bool" where
  "IsPathSeparator c = (c = Separator)"

text \<open>\<^verbatim>\<open>flattenPath\<close>: the replacer turns every separator into an underscore.\<close>

definition flattenPath :: "string \<Rightarrow> string" where
  "flattenPath s = map (\<lambda>c. if c = Separator then CHR ''_'' else c) s"

text \<open>\<^verbatim>\<open>filepath.Base\<close>: the last element of the path, trailing separators removed first.\<close>

definition Base :: "string \<Rightarrow> string" where
  "Base path =
     (if path = [] then ''.''
      else
        let stripped = rev (dropWhile IsPathSeparator (rev path));
            element = rev (takeWhile (\<lambda>c. \<not> IsPathSeparator c) (rev stripped))
        in if element = [] then [Separator] else element)"

text \<open>
  \<^verbatim>\<open>filepath.Clean\<close>. The loop reads the rest of the path and writes to the buffer
  \<open>out\<close>; \<open>dotdot\<close> is the length of the buffer below which \<^verbatim>\<open>..\<close> may not
  remove anything.
\<close>

function backtrack :: "string \<Rightarrow> nat \<Rightarrow> nat \<Rightarrow> nat" where
  "backtrack out dotdot w =
     (if dotdot < w \<and> \<not> IsPathSeparator (out ! w) then backtrack out dotdot (w - 1) else w)"
  by pat_completeness auto
termination
  by (relation "measure (\<lambda>(out, dotdot, w). w)") auto

declare backtrack.simps [simp del]

function cleanLoop :: "bool \<Rightarrow> string \<Rightarrow> string \<Rightarrow> nat \<Rightarrow> string" where
  "cleanLoop rooted [] out dotdot = out"
| "cleanLoop rooted (c # cs) out dotdot =
     (if IsPathSeparator c then cleanLoop rooted cs out dotdot
      else if c = CHR ''.'' \<and> (cs = [] \<or> IsPathSeparator (hd cs))
        then cleanLoop rooted cs out dotdot
      else if c = CHR ''.'' \<and> hd cs = CHR ''.'' \<and> (tl cs = [] \<or> IsPathSeparator (hd (tl cs)))
        then
          (if dotdot < length out
             then cleanLoop rooted (tl cs) (take (backtrack out dotdot (length out - 1)) out) dotdot
           else if \<not> rooted
             then
               let out1 = (if out \<noteq> [] then out @ [Separator] else out) @ ''..''
               in cleanLoop rooted (tl cs) out1 (length out1)
           else cleanLoop rooted (tl cs) out dotdot)
      else
        let out1 = (if rooted \<and> length out \<noteq> 1 \<or> \<not> rooted \<and> length out \<noteq> 0
                    then out @ [Separator] else out)
        in cleanLoop rooted (dropWhile (\<lambda>x. \<not> IsPathSeparator x) cs)
             (out1 @ c # takeWhile (\<lambda>x. \<not> IsPathSeparator x) cs) dotdot)"
  by pat_completeness auto
termination
  by (relation "measure (\<lambda>(rooted, rest, out, dotdot). length rest)")
    (simp_all add: less_Suc_eq_le length_dropWhile_le)

declare cleanLoop.simps [simp del]

definition Clean :: "string \<Rightarrow> string" where
  "Clean path =
     (if path = [] then ''.''
      else
        let rooted = IsPathSeparator (hd path);
            out = (if rooted then cleanLoop rooted (tl path) [Separator] 1
                   else cleanLoop rooted path [] 0)
        in if out = [] then ''.'' else out)"

text \<open>\<^verbatim>\<open>strings.Join\<close>, and \<^verbatim>\<open>filepath.Join\<close>, which skips leading empty elements.\<close>

fun strings_Join :: "string list \<Rightarrow> string \<Rightarrow> string" where
  "strings_Join [] sep = []"
| "strings_Join [e] sep = e"
| "strings_Join (e # es) sep = e @ sep @ strings_Join es sep"

fun Join :: "string list \<Rightarrow> string" where
  "Join [] = []"
| "Join (e # es) = (if e \<noteq> [] then Clean (strings_Join (e # es) [Separator]) else Join es)"

text \<open>
  \<^verbatim>\<open>path.Join\<close>, which \<^verbatim>\<open>fs.WalkDir\<close> uses for the names it reports: empty elements
  are left out, and \<^verbatim>\<open>path.Clean\<close> is the algorithm of \<open>Clean\<close>.
\<close>

definition path_Join :: "string list \<Rightarrow> string" where
  "path_Join elem =
     (if concat elem = [] then []
      else Clean (strings_Join (filter (\<lambda>e. e \<noteq> []) elem) ''/''))"

text \<open>\<^verbatim>\<open>sanitizeDirPrefix\<close>.\<close>

definition sanitizeDirPrefix :: "string \<Rightarrow> string" where
  "sanitizeDirPrefix dir =
     (let dir1 = Base dir; dir2 = Clean dir1
      in if dir2 = ''.'' then [] else dir2 @ ''_'')"

section \<open>Glob patterns\<close>

text \<open>
  Error values: the sentinels of the libraries and of the program, the errors of the
  operating system (opaque, named by a text), and \<^verbatim>\<open>fmt.Errorf\<close> with its format, its
  string operands and the operand of \<^verbatim>\<open>%w\<close> (\<open>None\<close> when that operand is nil).
\<close>

datatype error =
    ErrBadPattern
  | SkipDir
  | SkipAll
  | errNoFilesFound
  | OSError string
  | Errorf string "string list" "error option"

text \<open>
  \<^verbatim>\<open>filepath.Match\<close> and its helpers, as of Go 1.16 and later (the program needs
  Go 1.21). A result is either the error or the boolean. \<^verbatim>\<open>matchChunk\<close> reads a chunk
  to its end also after the match has failed, so a syntax error in the chunk at hand
  is reported; \<^verbatim>\<open>Match\<close> itself returns false with no error as soon as a chunk
  fails to match, and does not look at the chunks after it.
\<close>

text \<open>\<^verbatim>\<open>scanChunk\<close>: leading stars, then the text up to the next star outside brackets.\<close>

fun scanLen :: "string \<Rightarrow> bool \<Rightarrow> nat" where
  "scanLen [] inrange = 0"
| "scanLen (c # cs) inrange =
     (if c = CHR 0x5C then (case cs of [] \<Rightarrow> 1 | d # ds \<Rightarrow> 2 + scanLen ds inrange)
      else if c = CHR ''['' then 1 + scanLen cs True
      else if c = CHR '']'' then 1 + scanLen cs False
      else if c = CHR ''*'' then (if \<not> inrange then 0 else 1 + scanLen cs inrange)
      else 1 + scanLen cs inrange)"

definition scanChunk :: "string \<Rightarrow> bool \<times> string \<times> string" where
  "scanChunk pattern =
     (let star = (pattern \<noteq> [] \<and> hd pattern = CHR ''*'');
          pattern1 = dropWhile (\<lambda>c. c = CHR ''*'') pattern;
          i = scanLen pattern1 False
      in (star, take i pattern1, drop i pattern1))"

text \<open>\<^verbatim>\<open>getEsc\<close>: one possibly escaped character of a character class.\<close>

definition getEsc :: "string \<Rightarrow> error + (rune \<times> string)" where
  "getEsc chunk =
     (if chunk = [] \<or> hd chunk = CHR ''-'' \<or> hd chunk = CHR '']'' then Inl ErrBadPattern
      else
        let chunk1 = (if hd chunk = CHR 0x5C then tl chunk else chunk) in
        if chunk1 = [] then Inl ErrBadPattern
        else case DecodeRuneInString chunk1 of
               (r, n) \<Rightarrow>
                 if r = RuneError \<and> n = 1 then Inl ErrBadPattern
                 else if drop n chunk1 = [] then Inl ErrBadPattern
                 else Inr (r, drop n chunk1))"

lemma getEsc_shorter: "getEsc chunk = Inr (r, nchunk) \<Longrightarrow> length nchunk < length chunk"
proof -
  assume a: "getEsc chunk = Inr (r, nchunk)"
  then have ne: "chunk \<noteq> []" by (auto simp: getEsc_def)
  define chunk1 where "chunk1 = (if hd chunk = CHR 0x5C then tl chunk else chunk)"
  from a have ne1: "chunk1 \<noteq> []"
    by (auto simp: getEsc_def chunk1_def Let_def split: if_splits)
  obtain r' n where d: "DecodeRuneInString chunk1 = (r', n)" by (cases "DecodeRuneInString chunk1")
  from DecodeRuneInString_width [OF ne1 d] have n: "1 \<le> n" by simp
  from a d ne1 have "nchunk = drop n chunk1"
    by (auto simp: getEsc_def chunk1_def [symmetric] Let_def split: if_splits)
  moreover have "length chunk1 \<le> length chunk" by (simp add: chunk1_def)
  ultimately show ?thesis using n ne1 by (cases chunk1) auto
qed

text \<open>The loop over the ranges of a character class, up to the closing bracket.\<close>

function classLoop :: "string \<Rightarrow> rune \<Rightarrow> bool \<Rightarrow> nat \<Rightarrow> error + (bool \<times> string)" where
  "classLoop chunk r match nrange =
     (if chunk \<noteq> [] \<and> hd chunk = CHR '']'' \<and> 0 < nrange then Inr (match, tl chunk)
      else case getEsc chunk of
             Inl err \<Rightarrow> Inl err
           | Inr (lo, chunk1) \<Rightarrow>
               if hd chunk1 = CHR ''-''
               then (case getEsc (tl chunk1) of
                       Inl err \<Rightarrow> Inl err
                     | Inr (hi, chunk2) \<Rightarrow>
                         classLoop chunk2 r (match \<or> lo \<le> r \<and> r \<le> hi) (nrange + 1))
               else classLoop chunk1 r (match \<or> lo \<le> r \<and> r \<le> lo) (nrange + 1))"
  by pat_completeness auto
termination
  apply (relation "measure (\<lambda>(chunk, r, match, nrange). length chunk)")
    apply simp
  subgoal for chunk r match nrange x lo chunk1 y hi chunk2
    using getEsc_shorter [of chunk lo chunk1] getEsc_shorter [of "tl chunk1" hi chunk2]
    by (cases chunk1) auto
  subgoal for chunk r match nrange x lo chunk1
    using getEsc_shorter [of chunk lo chunk1] by simp
  done

declare classLoop.simps [simp del]

lemma classLoop_length:
  "classLoop chunk r match nrange = Inr (m, rest) \<Longrightarrow> length rest \<le> length chunk"
proof (induction chunk r match nrange rule: classLoop.induct)
  case (1 chunk r match nrange)
  show ?case
  proof (cases "chunk \<noteq> [] \<and> hd chunk = CHR '']'' \<and> 0 < nrange")
    case True
    with "1.prems" show ?thesis by (auto simp: classLoop.simps [of chunk])
  next
    case False
    with "1.prems" obtain lo chunk1 where e: "getEsc chunk = Inr (lo, chunk1)"
      by (auto simp: classLoop.simps [of chunk] split: sum.splits)
    note l1 = getEsc_shorter [OF e]
    show ?thesis
    proof (cases "hd chunk1 = CHR ''-''")
      case True
      with "1.prems" False e obtain hi chunk2 where e2: "getEsc (tl chunk1) = Inr (hi, chunk2)"
        by (auto simp: classLoop.simps [of chunk] split: sum.splits)
      from "1.prems" False e True e2
      have "classLoop chunk2 r (match \<or> lo \<le> r \<and> r \<le> hi) (nrange + 1) = Inr (m, rest)"
        by (simp add: classLoop.simps [of chunk])
      from "1.IH"(1) [OF False e refl True e2 refl this]
      have "length rest \<le> length chunk2" .
      with getEsc_shorter [OF e2] l1 show ?thesis by simp
    next
      case nd: False
      from "1.prems" False e nd
      have "classLoop chunk1 r (match \<or> lo \<le> r \<and> r \<le> lo) (nrange + 1) = Inr (m, rest)"
        by (simp add: classLoop.simps [of chunk])
      from "1.IH"(2) [OF False e refl nd this] l1 show ?thesis by simp
    qed
  qed
qed

text \<open>
  \<^verbatim>\<open>matchChunk\<close>: the chunk against the start of \<open>s\<close>. Once the match has failed the
  loop only checks the rest of the chunk for syntax errors. The result is the rest of
  \<open>s\<close> and whether the chunk matched.
\<close>

function matchChunkLoop :: "string \<Rightarrow> string \<Rightarrow> bool \<Rightarrow> error + (string \<times> bool)" where
  "matchChunkLoop chunk s failed0 =
     (case chunk of
        [] \<Rightarrow> if failed0 then Inr ([], False) else Inr (s, True)
      | c # chunk1 \<Rightarrow>
          let failed = (failed0 \<or> s = []) in
          if c = CHR ''['' then
            (let r = (if \<not> failed then fst (DecodeRuneInString s) else 0);
                 s1 = (if \<not> failed then drop (snd (DecodeRuneInString s)) s else s);
                 negated = (chunk1 \<noteq> [] \<and> hd chunk1 = CHR ''^'');
                 chunk2 = (if negated then tl chunk1 else chunk1)
             in case classLoop chunk2 r False 0 of
                  Inl err \<Rightarrow> Inl err
                | Inr (match, chunk3) \<Rightarrow>
                    matchChunkLoop chunk3 s1 (failed \<or> match = negated))
          else if c = CHR ''?'' then
            (if \<not> failed
               then matchChunkLoop chunk1 (drop (snd (DecodeRuneInString s)) s) (hd s = Separator)
             else matchChunkLoop chunk1 s failed)
          else if c = CHR 0x5C then
            (if chunk1 = [] then Inl ErrBadPattern
             else if \<not> failed then matchChunkLoop (tl chunk1) (tl s) (hd chunk1 \<noteq> hd s)
             else matchChunkLoop (tl chunk1) s failed)
          else
            (if \<not> failed then matchChunkLoop chunk1 (tl s) (c \<noteq> hd s)
             else matchChunkLoop chunk1 s failed))"
  by pat_completeness auto
termination
  apply (relation "measure (\<lambda>(chunk, s, failed). length chunk)")
         apply simp
  subgoal for chunk s failed0 c chunk1 failed r s1 negated chunk2 x match chunk3
    using classLoop_length [of chunk2 r False 0 match chunk3] by (auto split: if_splits)
         apply simp_all
  done

declare matchChunkLoop.simps [simp del]

definition matchChunk :: "string \<Rightarrow> string \<Rightarrow> error + (string \<times> bool)" where
  "matchChunk chunk s = matchChunkLoop chunk s False"

text \<open>The loop of \<^verbatim>\<open>Match\<close> under a star: the chunk is tried after skipping \<open>i + 1\<close> bytes.\<close>

function starLoop :: "string \<Rightarrow> string \<Rightarrow> string \<Rightarrow> nat \<Rightarrow> error + string option" where
  "starLoop chunk pattern name i =
     (if i < length name \<and> name ! i \<noteq> Separator then
        (case matchChunk chunk (drop (i + 1) name) of
           Inl err \<Rightarrow> Inl err
         | Inr (t, ok) \<Rightarrow>
             if ok then (if pattern = [] \<and> t \<noteq> [] then starLoop chunk pattern name (i + 1)
                         else Inr (Some t))
             else starLoop chunk pattern name (i + 1))
      else Inr None)"
  by pat_completeness auto
termination
  by (relation "measure (\<lambda>(chunk, pattern, name, i). length name - i)") auto

declare starLoop.simps [simp del]

lemma scanLen_positive: "pattern \<noteq> [] \<Longrightarrow> hd pattern \<noteq> CHR ''*'' \<Longrightarrow> 0 < scanLen pattern False"
  by (cases pattern) (auto split: list.splits)

lemma scanChunk_shorter:
  assumes "pattern \<noteq> []" and "scanChunk pattern = (star, chunk, rest)"
  shows "length rest < length pattern"
proof (cases "hd pattern = CHR ''*''")
  case True
  with assms(1) have "length (dropWhile (\<lambda>c. c = CHR ''*'') pattern) < length pattern"
    by (cases pattern) (auto simp: less_Suc_eq_le length_dropWhile_le)
  with assms(2) show ?thesis by (auto simp: scanChunk_def Let_def)
next
  case False
  with assms(1) have "dropWhile (\<lambda>c. c = CHR ''*'') pattern = pattern" by (cases pattern) auto
  with assms scanLen_positive [OF assms(1) False] show ?thesis
    by (auto simp: scanChunk_def Let_def)
qed

function Match :: "string \<Rightarrow> string \<Rightarrow> error + bool" where
  "Match pattern name =
     (if pattern = [] then Inr (name = [])
      else case scanChunk pattern of
             (star, chunk, pattern1) \<Rightarrow>
               if star \<and> chunk = [] then Inr (Separator \<notin> set name)
               else
                 (case matchChunk chunk name of
                    Inl err \<Rightarrow> Inl err
                  | Inr (t, ok) \<Rightarrow>
                      if ok \<and> (t = [] \<or> pattern1 \<noteq> []) then Match pattern1 t
                      else if star then
                        (case starLoop chunk pattern1 name 0 of
                           Inl err \<Rightarrow> Inl err
                         | Inr None \<Rightarrow> Inr False
                         | Inr (Some t1) \<Rightarrow> Match pattern1 t1)
                      else Inr False))"
  by pat_completeness auto
termination
  apply (relation "measure (\<lambda>(pattern, name). length pattern)")
    apply simp
  subgoal for pattern name star y chunk pattern1
    using scanChunk_shorter [of pattern star chunk pattern1] by auto
  subgoal for pattern name star y chunk pattern1
    using scanChunk_shorter [of pattern star chunk pattern1] by auto
  done

declare Match.simps [simp del]

section \<open>Discovery\<close>

text \<open>
  The file tree under a source directory, as \<^verbatim>\<open>os.DirFS\<close> shows it. \<open>File\<close> is any
  entry that is not a directory (\<^verbatim>\<open>d.IsDir()\<close> is all the program asks of an entry);
  \<open>Dir\<close> holds the entries in the order \<^verbatim>\<open>ReadDir\<close> returns them; \<open>BrokenDir\<close> is a
  directory whose \<^verbatim>\<open>ReadDir\<close> fails, with the entries read before the error and the
  error of the operating system. The file system of a directory argument is the
  error of \<^verbatim>\<open>Stat\<close> on its root, or the tree.
\<close>

datatype node =
    File
  | Dir "(string \<times> node) list"
  | BrokenDir "(string \<times> node) list" string

type_synonym FS = "string + node"

record fileRecord =
  path :: string
  name :: string

fun IsDir :: "node \<Rightarrow> bool" where
  "IsDir File = False"
| "IsDir (Dir es) = True"
| "IsDir (BrokenDir es err) = True"

fun ReadDir :: "node \<Rightarrow> (string \<times> node) list \<times> error option" where
  "ReadDir File = ([], Some (OSError ''not a directory''))"
| "ReadDir (Dir es) = (es, None)"
| "ReadDir (BrokenDir es err) = (es, Some (OSError err))"

text \<open>
  \<^verbatim>\<open>fs.WalkDir\<close> with the state of the callback passed along. The callback gets the
  state, the path, whether the entry is a directory (\<open>None\<close> for the nil entry that
  goes with the error of the root) and the error, and returns the new state and its
  error.
\<close>

type_synonym 'st WalkDirFunc = "'st \<Rightarrow> string \<Rightarrow> bool option \<Rightarrow> error option \<Rightarrow> 'st \<times> error option"

lemma ReadDir_size:
  "ReadDir d = (dirs, e) \<Longrightarrow> size_list (\<lambda>p. size (snd p)) dirs \<le> size d"
  by (cases d) (auto simp: size_list_conv_sum_list intro!: sum_list_mono le_SucI)

function (sequential) walkDir :: "'st WalkDirFunc \<Rightarrow> string \<Rightarrow> node \<Rightarrow> 'st \<Rightarrow> 'st \<times> error option"
  and walkEntries :: "'st WalkDirFunc \<Rightarrow> string \<Rightarrow> (string \<times> node) list \<Rightarrow> 'st \<Rightarrow> 'st \<times> error option"
where
  "walkDir fn nm d st =
     (case fn st nm (Some (IsDir d)) None of
        (st1, err) \<Rightarrow>
          if err \<noteq> None \<or> \<not> IsDir d
            then (st1, if err = Some SkipDir \<and> IsDir d then None else err)
          else
            (case ReadDir d of
               (dirs, None) \<Rightarrow> walkEntries fn nm dirs st1
             | (dirs, Some errRead) \<Rightarrow>
                 (case fn st1 nm (Some (IsDir d)) (Some errRead) of
                    (st2, None) \<Rightarrow> walkEntries fn nm dirs st2
                  | (st2, Some err2) \<Rightarrow>
                      (st2, if err2 = SkipDir \<and> IsDir d then None else Some err2))))"
| "walkEntries fn nm [] st = (st, None)"
| "walkEntries fn nm ((n, d1) # dirs) st =
     (case walkDir fn (path_Join [nm, n]) d1 st of
        (st1, None) \<Rightarrow> walkEntries fn nm dirs st1
      | (st1, Some err) \<Rightarrow> if err = SkipDir then (st1, None) else (st1, Some err))"
  by pat_completeness auto
termination
  apply (relation "measure (\<lambda>x. case x of
            Inl (fn, nm, d, st) \<Rightarrow> 2 * size d + 2
          | Inr (fn, nm, dirs, st) \<Rightarrow> 2 * size_list (\<lambda>p. size (snd p)) dirs + 1)")
  subgoal by simp
  subgoal for fn nm d st x y xa ya using ReadDir_size [of d xa ya] by simp
  subgoal for fn nm d st x y xa ya using ReadDir_size [of d xa ya] by simp
  subgoal by simp
  subgoal by simp
  done

declare walkDir.simps [simp del] walkEntries.simps [simp del]

definition WalkDir :: "FS \<Rightarrow> string \<Rightarrow> 'st WalkDirFunc \<Rightarrow> 'st \<Rightarrow> 'st \<times> error option" where
  "WalkDir fsys root fn st =
     (case (case fsys of
              Inl err \<Rightarrow> fn st root None (Some (OSError err))
            | Inr info \<Rightarrow> walkDir fn root info st) of
        (st1, err) \<Rightarrow> (st1, if err = Some SkipDir \<or> err = Some SkipAll then None else err))"

text \<open>
  \<^verbatim>\<open>searchRecords\<close>. The callback's state is the slice \<open>found\<close>; \<open>matchGlobs\<close> is its
  loop over the patterns, which stops at the first pattern that matches and ignores
  the error of \<^verbatim>\<open>filepath.Match\<close>. The log line is left out.
\<close>

fun matchGlobs :: "string \<Rightarrow> string \<Rightarrow> fileRecord list \<Rightarrow> string list \<Rightarrow> fileRecord list" where
  "matchGlobs dir p found [] = found"
| "matchGlobs dir p found (pattern # fileGlobs) =
     (if Match pattern p = Inr True
        then found @ [\<lparr>path = Join [dir, p], name = sanitizeDirPrefix dir @ flattenPath p\<rparr>]
      else matchGlobs dir p found fileGlobs)"

definition visit :: "string \<Rightarrow> string list \<Rightarrow> fileRecord list WalkDirFunc" where
  "visit dir fileGlobs found p d err =
     (if err \<noteq> None \<or> d = Some True then (found, err)
      else (matchGlobs dir p found fileGlobs, None))"

definition searchRecords :: "string \<Rightarrow> FS \<Rightarrow> string list \<Rightarrow> error + fileRecord list" where
  "searchRecords dir fsys fileGlobs =
     (case WalkDir fsys ''.'' (visit dir fileGlobs) [] of
        (found, Some errWalk) \<Rightarrow> Inl (Errorf ''walking dir: %w'' [] (Some errWalk))
      | (found, None) \<Rightarrow> if length found = 0 then Inl errNoFilesFound else Inr found)"

section \<open>Registration of the patterns\<close>

text \<open>
  The callback of the flag \<^verbatim>\<open>-g\<close> in \<^verbatim>\<open>main\<close>, and \<^verbatim>\<open>flag.Parse\<close> calling it for the
  values of \<^verbatim>\<open>-g\<close> in the order of the command line. The flag set exits the program
  at the first error of a callback.
\<close>

definition registerGlob :: "string list \<Rightarrow> string \<Rightarrow> error + string list" where
  "registerGlob fileGlobs pattern =
     (case Match pattern [] of
        Inl err \<Rightarrow> Inl err
      | Inr matched \<Rightarrow> Inr (fileGlobs @ [pattern]))"

fun parseGlobFlags :: "string list \<Rightarrow> string list \<Rightarrow> error + string list" where
  "parseGlobFlags fileGlobs [] = Inr fileGlobs"
| "parseGlobFlags fileGlobs (pattern # rest) =
     (case registerGlob fileGlobs pattern of
        Inl err \<Rightarrow> Inl err
      | Inr fileGlobs1 \<Rightarrow> parseGlobFlags fileGlobs1 rest)"

section \<open>Sorting\<close>

text \<open>
  \<^verbatim>\<open>slices.SortStableFunc\<close>, as the Go library has it: insertion sort on blocks of 20
  elements, then rounds of \<^verbatim>\<open>symMerge\<close> on neighbouring blocks. The slice is a list,
  updated by index; the comparison may panic, and then the sort does.
\<close>

type_synonym 'a cmpFunc = "'a \<Rightarrow> 'a \<Rightarrow> panic + int"

definition swap :: "'a list \<Rightarrow> nat \<Rightarrow> nat \<Rightarrow> 'a list" where
  "swap data i j = data[i := data ! j, j := data ! i]"

function insertionInner :: "'a list \<Rightarrow> nat \<Rightarrow> nat \<Rightarrow> 'a cmpFunc \<Rightarrow> panic + 'a list" where
  "insertionInner data a j cmp =
     (if a < j then
        (case cmp (data ! j) (data ! (j - 1)) of
           Inl p \<Rightarrow> Inl p
         | Inr c \<Rightarrow> if c < 0 then insertionInner (swap data j (j - 1)) a (j - 1) cmp
                     else Inr data)
      else Inr data)"
  by pat_completeness auto
termination
  by (relation "measure (\<lambda>(data, a, j, cmp). j)") auto

declare insertionInner.simps [simp del]

function insertionSortCmpFunc ::
  "'a list \<Rightarrow> nat \<Rightarrow> nat \<Rightarrow> nat \<Rightarrow> 'a cmpFunc \<Rightarrow> panic + 'a list" where
  "insertionSortCmpFunc data a i b cmp =
     (if i < b then
        (case insertionInner data a i cmp of
           Inl p \<Rightarrow> Inl p
         | Inr data1 \<Rightarrow> insertionSortCmpFunc data1 a (i + 1) b cmp)
      else Inr data)"
  by pat_completeness auto
termination
  by (relation "measure (\<lambda>(data, a, i, b, cmp). b - i)") auto

declare insertionSortCmpFunc.simps [simp del]

text \<open>
  The binary searches of \<^verbatim>\<open>symMerge\<close>. Each takes the test on the middle index \<open>h\<close>,
  which says whether the search goes on in the upper half.
\<close>

function search :: "(nat \<Rightarrow> panic + bool) \<Rightarrow> nat \<Rightarrow> nat \<Rightarrow> panic + nat" where
  "search goUp i j =
     (if i < j then
        (let h = (i + j) div 2 in
         case goUp h of
           Inl p \<Rightarrow> Inl p
         | Inr up \<Rightarrow> if up then search goUp (h + 1) j else search goUp i h)
      else Inr i)"
  by pat_completeness auto
termination
  by (relation "measure (\<lambda>(goUp, i, j). j - i)") auto

declare search.simps [simp del]

definition isLess :: "'a cmpFunc \<Rightarrow> 'a \<Rightarrow> 'a \<Rightarrow> panic + bool" where
  "isLess cmp x y = (case cmp x y of Inl p \<Rightarrow> Inl p | Inr c \<Rightarrow> Inr (c < 0))"

definition notLess :: "'a cmpFunc \<Rightarrow> 'a \<Rightarrow> 'a \<Rightarrow> panic + bool" where
  "notLess cmp x y = (case cmp x y of Inl p \<Rightarrow> Inl p | Inr c \<Rightarrow> Inr (\<not> c < 0))"

text \<open>The loops that move one element by swaps of neighbours, upwards and downwards.\<close>

function swapUp :: "'a list \<Rightarrow> nat \<Rightarrow> nat \<Rightarrow> 'a list" where
  "swapUp data k stop = (if k < stop then swapUp (swap data k (k + 1)) (k + 1) stop else data)"
  by pat_completeness auto
termination
  by (relation "measure (\<lambda>(data, k, stop). stop - k)") auto

declare swapUp.simps [simp del]

function swapDown :: "'a list \<Rightarrow> nat \<Rightarrow> nat \<Rightarrow> 'a list" where
  "swapDown data k stop = (if stop < k then swapDown (swap data k (k - 1)) (k - 1) stop else data)"
  by pat_completeness auto
termination
  by (relation "measure (\<lambda>(data, k, stop). k)") auto

declare swapDown.simps [simp del]

text \<open>
  \<^verbatim>\<open>rotate\<close> exchanges the neighbouring blocks \<^verbatim>\<open>data[a:m]\<close> and \<^verbatim>\<open>data[m:b]\<close>; it makes no
  comparison, and its result is written down directly.
\<close>

definition rotateCmpFunc :: "'a list \<Rightarrow> nat \<Rightarrow> nat \<Rightarrow> nat \<Rightarrow> 'a list" where
  "rotateCmpFunc data a m b =
     take a data @ take (b - m) (drop m data) @ take (m - a) (drop a data) @ drop b data"

lemma upper_half_smaller:
  "(a + b) div 2 < e \<Longrightarrow> e < b \<Longrightarrow> b - (a + b) div 2 < b - (a::nat)"
  by linarith

function symMergeCmpFunc :: "'a list \<Rightarrow> nat \<Rightarrow> nat \<Rightarrow> nat \<Rightarrow> 'a cmpFunc \<Rightarrow> panic + 'a list" where
  "symMergeCmpFunc data a m b cmp =
     (if m - a = 1 then
        (case search (\<lambda>h. isLess cmp (data ! h) (data ! a)) m b of
           Inl p \<Rightarrow> Inl p
         | Inr i \<Rightarrow> Inr (swapUp data a (i - 1)))
      else if b - m = 1 then
        (case search (\<lambda>h. notLess cmp (data ! m) (data ! h)) a m of
           Inl p \<Rightarrow> Inl p
         | Inr i \<Rightarrow> Inr (swapDown data m i))
      else
        (let mid = (a + b) div 2;
             n = mid + m;
             start0 = (if mid < m then n - b else a);
             r = (if mid < m then mid else m);
             p = n - 1
         in case search (\<lambda>c. notLess cmp (data ! (p - c)) (data ! c)) start0 r of
              Inl p \<Rightarrow> Inl p
            | Inr start \<Rightarrow>
                (let finish = n - start;
                     data1 = (if start < m \<and> m < finish then rotateCmpFunc data start m finish else data)
                 in case (if a < start \<and> start < mid then symMergeCmpFunc data1 a start mid cmp
                          else Inr data1) of
                      Inl p \<Rightarrow> Inl p
                    | Inr data2 \<Rightarrow>
                        if mid < finish \<and> finish < b then symMergeCmpFunc data2 mid finish b cmp
                        else Inr data2)))"
  by pat_completeness auto
termination
  by (relation "measure (\<lambda>(data, a, m, b, cmp). b - a)") (auto intro: upper_half_smaller)

declare symMergeCmpFunc.simps [simp del]

text \<open>\<^verbatim>\<open>stable\<close>: the loop over the blocks, one round of merges, and the rounds.\<close>

function sortBlocks :: "'a list \<Rightarrow> nat \<Rightarrow> nat \<Rightarrow> nat \<Rightarrow> nat \<Rightarrow> 'a cmpFunc \<Rightarrow> panic + 'a list" where
  "sortBlocks data a b blockSize n cmp =
     (if b \<le> n \<and> 0 < blockSize then
        (case insertionSortCmpFunc data a (a + 1) b cmp of
           Inl p \<Rightarrow> Inl p
         | Inr data1 \<Rightarrow> sortBlocks data1 b (b + blockSize) blockSize n cmp)
      else insertionSortCmpFunc data a (a + 1) n cmp)"
  by pat_completeness auto
termination
  by (relation "measure (\<lambda>(data, a, b, blockSize, n, cmp). Suc n - b)") auto

declare sortBlocks.simps [simp del]

function mergeBlocks :: "'a list \<Rightarrow> nat \<Rightarrow> nat \<Rightarrow> nat \<Rightarrow> nat \<Rightarrow> 'a cmpFunc \<Rightarrow> panic + 'a list" where
  "mergeBlocks data a b blockSize n cmp =
     (if b \<le> n \<and> 0 < blockSize then
        (case symMergeCmpFunc data a (a + blockSize) b cmp of
           Inl p \<Rightarrow> Inl p
         | Inr data1 \<Rightarrow> mergeBlocks data1 b (b + 2 * blockSize) blockSize n cmp)
      else if a + blockSize < n then symMergeCmpFunc data a (a + blockSize) n cmp
      else Inr data)"
  by pat_completeness auto
termination
  by (relation "measure (\<lambda>(data, a, b, blockSize, n, cmp). Suc n - b)") auto

declare mergeBlocks.simps [simp del]

function mergeRounds :: "'a list \<Rightarrow> nat \<Rightarrow> nat \<Rightarrow> 'a cmpFunc \<Rightarrow> panic + 'a list" where
  "mergeRounds data blockSize n cmp =
     (if blockSize < n \<and> 0 < blockSize then
        (case mergeBlocks data 0 (2 * blockSize) blockSize n cmp of
           Inl p \<Rightarrow> Inl p
         | Inr data1 \<Rightarrow> mergeRounds data1 (2 * blockSize) n cmp)
      else Inr data)"
  by pat_completeness auto
termination
  by (relation "measure (\<lambda>(data, blockSize, n, cmp). n - blockSize)") auto

declare mergeRounds.simps [simp del]

definition stableCmpFunc :: "'a list \<Rightarrow> nat \<Rightarrow> 'a cmpFunc \<Rightarrow> panic + 'a list" where
  "stableCmpFunc data n cmp =
     (case sortBlocks data 0 20 20 n cmp of
        Inl p \<Rightarrow> Inl p
      | Inr data1 \<Rightarrow> mergeRounds data1 20 n cmp)"

definition SortStableFunc :: "'a list \<Rightarrow> 'a cmpFunc \<Rightarrow> panic + 'a list" where
  "SortStableFunc x cmp = stableCmpFunc x (length x) cmp"

text \<open>\<^verbatim>\<open>sortFileRecords\<close>: equal records compare as equal, the others by their names.\<close>

definition cmpRecords :: "fileRecord cmpFunc" where
  "cmpRecords a b =
     (if a = b then Inr 0
      else case naturalLess (name a) (name b) of
             Inl p \<Rightarrow> Inl p
           | Inr lt \<Rightarrow> if lt then Inr (- 1) else Inr 1)"

definition sortFileRecords :: "fileRecord list \<Rightarrow> panic + fileRecord list" where
  "sortFileRecords records = SortStableFunc records cmpRecords"

section \<open>The archive pipeline\<close>

text \<open>
  The archive is the list of the entries written so far: the name and the comment
  of the header, and the bytes copied into the entry.

  The environment is what the operating system and the zip writer answer: the file
  system that \<^verbatim>\<open>os.DirFS\<close> shows for a directory, the result of opening a source file
  (the error, or the file: the error of its \<^verbatim>\<open>Stat\<close> if any, the size that \<^verbatim>\<open>Stat\<close>
  reports, the bytes that \<^verbatim>\<open>io.Copy\<close> transfers and the error that ends the copy if
  any), the error of \<^verbatim>\<open>CreateHeader\<close> for a header in a state of the archive, if any,
  and the error of opening the output file, if any.
\<close>

record entry =
  Name :: string
  Comment :: string
  Data :: string

type_synonym archive = "entry list"

record srcFile =
  statError :: "string option"
  Size :: int
  bytes :: string
  copyError :: "string option"

record env =
  DirFS :: "string \<Rightarrow> FS"
  OpenFile :: "string \<Rightarrow> string + srcFile"
  CreateHeader :: "archive \<Rightarrow> string \<Rightarrow> string \<Rightarrow> error option"
  OpenOutput :: "string \<Rightarrow> string option"

text \<open>
  The progress bars of the library \<^verbatim>\<open>mpb\<close>. A bar has a total and counts its
  increments; it is completed when the count reaches the total, and a bar made with a
  total of zero or less is never completed by increments. \<^verbatim>\<open>bar.Wait()\<close> returns
  once the bar is completed, and not before. \<open>completed tot n\<close> says whether a bar made
  with the total \<open>tot\<close> is completed after increments that sum to \<open>n\<close>.
\<close>

definition completed :: "int \<Rightarrow> int \<Rightarrow> bool" where
  "completed tot n = (0 < tot \<and> tot \<le> n)"

text \<open>
  \<^verbatim>\<open>copyFileTo\<close>: the bytes written to the entry, and how the call ends: it returns
  its error, or it never returns because \<^verbatim>\<open>bar.Wait()\<close> waits for a bar that is not
  completed. The bar of the file has the size of the file as its total and is
  incremented by the bytes written. When \<^verbatim>\<open>Stat\<close> fails the code formats
  \<^verbatim>\<open>errFile\<close>, which is nil at that point.
\<close>

datatype returned = Returns "error option" | NeverReturns

definition copyFileTo :: "env \<Rightarrow> string \<Rightarrow> string \<times> returned" where
  "copyFileTo e filename =
     (case OpenFile e filename of
        Inl errFile \<Rightarrow>
          ([], Returns (Some (Errorf ''unable to open file %q: %w'' [filename]
                                (Some (OSError errFile)))))
      | Inr file \<Rightarrow>
          (case statError file of
             Some errInfo \<Rightarrow>
               ([], Returns (Some (Errorf ''unable to open file %q: %w'' [filename] None)))
           | None \<Rightarrow>
               (case copyError file of
                  Some errCopy \<Rightarrow>
                    (bytes file,
                     Returns (Some (Errorf ''unable to write file %q: %w'' [filename]
                                      (Some (OSError errCopy)))))
                | None \<Rightarrow>
                    if completed (Size file) (int (length (bytes file)))
                      then (bytes file, Returns None)
                    else (bytes file, NeverReturns))))"

text \<open>
  A run of the pipeline returns the archive and its error, if any (\<open>Inr\<close>), or it stops
  without returning (\<open>Inl\<close>): by the panic of the comparator, or blocked in
  \<^verbatim>\<open>bar.Wait()\<close> with the archive as it is then.
\<close>

datatype stop = Panic panic | Blocked archive

text \<open>
  The loop of \<^verbatim>\<open>processDir\<close> over the sorted records, and \<^verbatim>\<open>processDir\<close>. The bar of
  the directory has the number of records as its total, which is positive, and is
  incremented once for each record, so it is completed when the loop ends.
\<close>

fun writeRecords :: "env \<Rightarrow> archive \<Rightarrow> fileRecord list \<Rightarrow> stop + (archive \<times> error option)" where
  "writeRecords e ar [] = Inr (ar, None)"
| "writeRecords e ar (record # found) =
     (case CreateHeader e ar (name record) (path record) of
        Some errCreate \<Rightarrow>
          Inr (ar, Some (Errorf ''creating zip file record: %w'' [] (Some errCreate)))
      | None \<Rightarrow>
          (case copyFileTo e (path record) of
             (written, NeverReturns) \<Rightarrow>
               Inl (Blocked (ar @ [\<lparr>Name = name record, Comment = path record, Data = written\<rparr>]))
           | (written, Returns (Some err)) \<Rightarrow>
               Inr (ar @ [\<lparr>Name = name record, Comment = path record, Data = written\<rparr>],
                    Some (Errorf ''writing file to archive: %w'' [] (Some err)))
           | (written, Returns None) \<Rightarrow>
               writeRecords e (ar @ [\<lparr>Name = name record, Comment = path record, Data = written\<rparr>])
                 found))"

definition processDir ::
  "env \<Rightarrow> archive \<Rightarrow> string \<Rightarrow> string list \<Rightarrow> stop + (archive \<times> error option)" where
  "processDir e ar dir fileGlobs =
     (case searchRecords dir (DirFS e dir) fileGlobs of
        Inl errFind \<Rightarrow> Inr (ar, Some (Errorf ''searching files: %w'' [] (Some errFind)))
      | Inr found \<Rightarrow>
          (case sortFileRecords found of
             Inl p \<Rightarrow> Inl (Panic p)
           | Inr found1 \<Rightarrow> writeRecords e ar found1))"

text \<open>
  \<^verbatim>\<open>process\<close>. When the loop over the directories ends, every bar is completed, so
  the last \<^verbatim>\<open>p.bar.Wait()\<close> returns.
\<close>

fun process ::
  "env \<Rightarrow> archive \<Rightarrow> string list \<Rightarrow> string list \<Rightarrow> stop + (archive \<times> error option)" where
  "process e ar [] fileGlobs = Inr (ar, None)"
| "process e ar (dir # dirs) fileGlobs =
     (case processDir e ar dir fileGlobs of
        Inl p \<Rightarrow> Inl p
      | Inr (ar1, Some err) \<Rightarrow> Inr (ar1, Some (Errorf ''dir %q: %w'' [dir] (Some err)))
      | Inr (ar1, None) \<Rightarrow> process e ar1 dirs fileGlobs)"

text \<open>
  \<^verbatim>\<open>main\<close>, for the output file name, the values of \<^verbatim>\<open>-g\<close> in the order of the command
  line and the directory arguments. The flags \<^verbatim>\<open>-sauce\<close> and \<^verbatim>\<open>-cpu-profile\<close> are left
  out. An error of a flag ends the program in \<^verbatim>\<open>flag.Parse\<close>; every later failure is a
  panic.
\<close>

datatype outcome =
    ExitFlagError error
  | PanicNoDirs
  | PanicOutput string
  | PanicProcessing error
  | PanicCompare panic
  | Hangs archive
  | Finished archive

definition main :: "env \<Rightarrow> string \<Rightarrow> string list \<Rightarrow> string list \<Rightarrow> outcome" where
  "main e outputFilename gs dirs =
     (case parseGlobFlags [''*.mp3''] gs of
        Inl err \<Rightarrow> ExitFlagError err
      | Inr fileGlobs \<Rightarrow>
          if length dirs = 0 then PanicNoDirs
          else
            (case OpenOutput e outputFilename of
               Some errOutput \<Rightarrow> PanicOutput errOutput
             | None \<Rightarrow>
                 (case process e [] dirs fileGlobs of
                    Inl (Panic p) \<Rightarrow> PanicCompare p
                  | Inl (Blocked ar) \<Rightarrow> Hangs ar
                  | Inr (ar, Some err) \<Rightarrow> PanicProcessing err
                  | Inr (ar, None) \<Rightarrow> Finished ar)))"

chapter \<open>The notions of the claims\<close>

section \<open>Digits and digit runs of a string\<close>

text \<open>The runes of a string, as \<^verbatim>\<open>for _, r := range s\<close> yields them.\<close>

function runes :: "string \<Rightarrow> rune list" where
  "runes s =
     (if s = [] then []
      else case DecodeRuneInString s of (r, n) \<Rightarrow> r # runes (drop n s))"
  by pat_completeness auto
termination
  apply (relation "measure length")
   apply simp
  subgoal for s r n
    using DecodeRuneInString_width [of s r n] by (cases s) auto
  done

declare runes.simps [simp del]

text \<open>A string contains a digit; its last rune is a digit.\<close>

definition hasDigit :: "string \<Rightarrow> bool" where
  "hasDigit s = list_ex IsDigit (runes s)"

definition endsWithDigit :: "string \<Rightarrow> bool" where
  "endsWithDigit s = (runes s \<noteq> [] \<and> IsDigit (last (runes s)))"

text \<open>
  The text before the first digit of a string (the whole string when it has none), and
  the length of the digit run that a string starts with.
\<close>

definition nonDigitPrefix :: "string \<Rightarrow> string" where
  "nonDigitPrefix s = (case IndexFunc s IsDigit of None \<Rightarrow> s | Some p \<Rightarrow> take p s)"

definition digitRunLen :: "string \<Rightarrow> nat" where
  "digitRunLen s = (case IndexFunc s isNonDigit of None \<Rightarrow> length s | Some i \<Rightarrow> i)"

text \<open>The first digit run of a string, empty when the string has no digit.\<close>

definition firstDigitRun :: "string \<Rightarrow> string" where
  "firstDigitRun s =
     (case IndexFunc s IsDigit of
        None \<Rightarrow> []
      | Some p \<Rightarrow> take (digitRunLen (drop p s)) (drop p s))"

text \<open>Every maximal digit run of the string is accepted by \<^verbatim>\<open>strconv.Atoi\<close>.\<close>

function digitRunsParse :: "string \<Rightarrow> bool" where
  "digitRunsParse s =
     (case IndexFunc s IsDigit of
        None \<Rightarrow> True
      | Some p \<Rightarrow>
          let s1 = drop p s; q = digitRunLen s1
          in Atoi (take q s1) \<noteq> None \<and> digitRunsParse (drop q s1))"
  by pat_completeness auto
termination
  apply (relation "measure length")
   apply simp
  subgoal for s p s1 q
    using digit_run_positive [of s p q] IndexFunc_Some_less [of s IsDigit p]
    by (auto simp: digitRunLen_def)
  done

declare digitRunsParse.simps [simp del]

section \<open>The entries of a tree\<close>

text \<open>A tree is readable when no directory in it fails to be read.\<close>

fun readable :: "node \<Rightarrow> bool"
  and readableEntries :: "(string \<times> node) list \<Rightarrow> bool"
where
  "readable File = True"
| "readable (Dir es) = readableEntries es"
| "readable (BrokenDir es err) = False"
| "readableEntries [] = True"
| "readableEntries ((n, d) # es) = (readable d \<and> readableEntries es)"

text \<open>
  The paths of the entries of a tree that are not directories, in the order of the
  walk, for a tree that the walk reports under the path \<open>nm\<close>.
\<close>

fun filesOf :: "string \<Rightarrow> node \<Rightarrow> string list"
  and filesOfEntries :: "string \<Rightarrow> (string \<times> node) list \<Rightarrow> string list"
where
  "filesOf nm File = [nm]"
| "filesOf nm (Dir es) = filesOfEntries nm es"
| "filesOf nm (BrokenDir es err) = filesOfEntries nm es"
| "filesOfEntries nm [] = []"
| "filesOfEntries nm ((n, d) # es) = filesOf (path_Join [nm, n]) d @ filesOfEntries nm es"

text \<open>The paths of the directories of a tree, likewise.\<close>

fun dirsOf :: "string \<Rightarrow> node \<Rightarrow> string list"
  and dirsOfEntries :: "string \<Rightarrow> (string \<times> node) list \<Rightarrow> string list"
where
  "dirsOf nm File = []"
| "dirsOf nm (Dir es) = nm # dirsOfEntries nm es"
| "dirsOf nm (BrokenDir es err) = nm # dirsOfEntries nm es"
| "dirsOfEntries nm [] = []"
| "dirsOfEntries nm ((n, d) # es) = dirsOf (path_Join [nm, n]) d @ dirsOfEntries nm es"

text \<open>
  A path matches at least one pattern of the set, and the record that
  \<^verbatim>\<open>searchRecords\<close> makes for a path.
\<close>

definition matchesAny :: "string list \<Rightarrow> string \<Rightarrow> bool" where
  "matchesAny fileGlobs p = list_ex (\<lambda>pattern. Match pattern p = Inr True) fileGlobs"

definition recordOf :: "string \<Rightarrow> string \<Rightarrow> fileRecord" where
  "recordOf dir p = \<lparr>path = Join [dir, p], name = sanitizeDirPrefix dir @ flattenPath p\<rparr>"

section \<open>Characters of a pattern\<close>

text \<open>A character that a chunk compares literally.\<close>

definition plain :: "char \<Rightarrow> bool" where
  "plain c = (c \<noteq> CHR ''['' \<and> c \<noteq> CHR ''?'' \<and> c \<noteq> CHR 0x5C)"

section \<open>Well-formed trees\<close>

text \<open>
  The names that a directory can hold: not empty, without a separator, and neither
  \<open>.\<close> nor \<open>..\<close>; the names of one directory are distinct.
\<close>

definition wfName :: "string \<Rightarrow> bool" where
  "wfName n = (n \<noteq> [] \<and> Separator \<notin> set n \<and> n \<noteq> ''.'' \<and> n \<noteq> ''..'')"

fun wfTree :: "node \<Rightarrow> bool"
  and wfEntries :: "(string \<times> node) list \<Rightarrow> bool"
where
  "wfTree File = True"
| "wfTree (Dir es) = wfEntries es"
| "wfTree (BrokenDir es err) = wfEntries es"
| "wfEntries [] = True"
| "wfEntries ((n, d) # es) = (wfName n \<and> n \<notin> set (map fst es) \<and> wfTree d \<and> wfEntries es)"

text \<open>The files of a tree as lists of names from the root, and the path of such a list.\<close>

fun fileNames :: "node \<Rightarrow> string list list"
  and fileNamesEntries :: "(string \<times> node) list \<Rightarrow> string list list"
where
  "fileNames File = [[]]"
| "fileNames (Dir es) = fileNamesEntries es"
| "fileNames (BrokenDir es err) = fileNamesEntries es"
| "fileNamesEntries [] = []"
| "fileNamesEntries ((n, d) # es) = map ((#) n) (fileNames d) @ fileNamesEntries es"

definition pathOf :: "string list \<Rightarrow> string" where
  "pathOf ns = (if ns = [] then ''.'' else strings_Join ns ''/'')"

text \<open>The directories of a tree, likewise, the root first.\<close>

fun dirNames :: "node \<Rightarrow> string list list"
  and dirNamesEntries :: "(string \<times> node) list \<Rightarrow> string list list"
where
  "dirNames File = []"
| "dirNames (Dir es) = [] # dirNamesEntries es"
| "dirNames (BrokenDir es err) = [] # dirNamesEntries es"
| "dirNamesEntries [] = []"
| "dirNamesEntries ((n, d) # es) = map ((#) n) (dirNames d) @ dirNamesEntries es"

section \<open>Sorted slices and error chains\<close>

text \<open>
  \<^verbatim>\<open>slices.IsSortedFunc\<close>, the library's test that a slice is in the order of a
  comparison: no element compares as less than the one before it.
\<close>

fun IsSortedFunc :: "'a list \<Rightarrow> 'a cmpFunc \<Rightarrow> panic + bool" where
  "IsSortedFunc (x # y # xs) cmp =
     (case IsSortedFunc (y # xs) cmp of
        Inl p \<Rightarrow> Inl p
      | Inr rest \<Rightarrow>
          if \<not> rest then Inr False
          else (case cmp y x of Inl p \<Rightarrow> Inl p | Inr c \<Rightarrow> Inr (\<not> c < 0)))"
| "IsSortedFunc xs cmp = Inr True"

text \<open>\<^verbatim>\<open>errors.Unwrap\<close>, followed to the end: the chain of an error.\<close>

fun chain :: "error \<Rightarrow> error list" where
  "chain (Errorf fmt args (Some err)) = Errorf fmt args (Some err) # chain err"
| "chain err = [err]"

section \<open>Environments\<close>

text \<open>
  A source directory \<open>d\<close> with the files \<open>a.mp3\<close> and \<open>a.mp3.mp3\<close>, every file
  readable and one byte long.
\<close>

definition doubleExtension :: env where
  "doubleExtension =
     \<lparr>DirFS = (\<lambda>dir. Inr (Dir [(''a.mp3'', File), (''a.mp3.mp3'', File)])),
      OpenFile = (\<lambda>filename. Inr \<lparr>statError = None, Size = 1, bytes = ''x'', copyError = None\<rparr>),
      CreateHeader = (\<lambda>ar n c. None),
      OpenOutput = (\<lambda>filename. None)\<rparr>"

text \<open>
  Source directories with the one file \<open>a.mp3\<close>, which opens, and whose \<^verbatim>\<open>Stat\<close> fails
  with \<open>EIO\<close>.
\<close>

definition statFails :: env where
  "statFails =
     \<lparr>DirFS = (\<lambda>dir. Inr (Dir [(''a.mp3'', File)])),
      OpenFile = (\<lambda>filename. Inr \<lparr>statError = Some ''EIO'', Size = 0, bytes = [], copyError = None\<rparr>),
      CreateHeader = (\<lambda>ar n c. None),
      OpenOutput = (\<lambda>filename. None)\<rparr>"

text \<open>
  A source directory \<open>d\<close> with the one file \<open>xa\<close>, readable and one byte long.
\<close>

definition oneFile :: env where
  "oneFile =
     \<lparr>DirFS = (\<lambda>dir. Inr (Dir [(''xa'', File)])),
      OpenFile = (\<lambda>filename. Inr \<lparr>statError = None, Size = 1, bytes = ''x'', copyError = None\<rparr>),
      CreateHeader = (\<lambda>ar n c. None),
      OpenOutput = (\<lambda>filename. None)\<rparr>"

text \<open>
  A source directory \<open>d\<close> with the one file \<open>a.mp3\<close>, readable and empty.
\<close>

definition emptyFile :: env where
  "emptyFile =
     \<lparr>DirFS = (\<lambda>dir. Inr (Dir [(''a.mp3'', File)])),
      OpenFile = (\<lambda>filename. Inr \<lparr>statError = None, Size = 0, bytes = [], copyError = None\<rparr>),
      CreateHeader = (\<lambda>ar n c. None),
      OpenOutput = (\<lambda>filename. None)\<rparr>"

chapter \<open>Properties\<close>

section \<open>The comparator\<close>

lemma runes_Nil_iff: "runes s = [] \<longleftrightarrow> s = []"
  by (cases "DecodeRuneInString s") (simp add: runes.simps [of s])

lemma IndexFunc_None_iff: "IndexFunc s f = None \<longleftrightarrow> \<not> list_ex f (runes s)"
proof (induction s f rule: IndexFunc.induct)
  case (1 s f)
  show ?case
  proof (cases "s = []")
    case True
    then show ?thesis by (simp add: IndexFunc.simps runes.simps)
  next
    case False
    obtain r n where d: "DecodeRuneInString s = (r, n)" by (cases "DecodeRuneInString s")
    show ?thesis
    proof (cases "f r")
      case True
      with False d show ?thesis by (simp add: IndexFunc.simps [of s] runes.simps [of s])
    next
      case nf: False
      from "1.IH" [OF False d [symmetric] nf] nf False d show ?thesis
        by (simp add: IndexFunc.simps [of s] runes.simps [of s])
    qed
  qed
qed

lemma IndexFunc_Some_last:
  "IndexFunc s f = Some p \<Longrightarrow> runes (drop p s) \<noteq> [] \<and> last (runes (drop p s)) = last (runes s)"
proof (induction s f arbitrary: p rule: IndexFunc.induct)
  case (1 s f)
  from "1.prems" have ne: "s \<noteq> []" by (auto simp: IndexFunc.simps [of s] split: if_splits)
  obtain r n where d: "DecodeRuneInString s = (r, n)" by (cases "DecodeRuneInString s")
  show ?case
  proof (cases "f r")
    case True
    with "1.prems" ne d show ?thesis by (simp add: IndexFunc.simps [of s] runes_Nil_iff)
  next
    case nf: False
    with "1.prems" ne d obtain q where q: "IndexFunc (drop n s) f = Some q" "p = n + q"
      by (auto simp: IndexFunc.simps [of s])
    from "1.IH" [OF ne d [symmetric] nf q(1)]
    have ih: "runes (drop q (drop n s)) \<noteq> []"
      "last (runes (drop q (drop n s))) = last (runes (drop n s))" by auto
    from IndexFunc_Some_less [OF q(1)] have "drop n s \<noteq> []" by auto
    then have "runes (drop n s) \<noteq> []" by (simp add: runes_Nil_iff)
    then have "last (runes s) = last (runes (drop n s))"
      using ne d by (simp add: runes.simps [of s])
    with ih q(2) show ?thesis by (simp add: add.commute)
  qed
qed

lemma naturalLess_unfold:
  "naturalLess strA strB =
     (case IndexFunc strA IsDigit of
        None \<Rightarrow> (case IndexFunc strB IsDigit of None \<Rightarrow> Inr (strA < strB) | Some posB \<Rightarrow> Inr False)
      | Some posA \<Rightarrow>
          (case IndexFunc strB IsDigit of
             None \<Rightarrow> Inr True
           | Some posB \<Rightarrow>
               if take posA strA \<noteq> take posB strB then Inr (take posA strA < take posB strB)
               else
                 (case Atoi (take (digitRunLen (drop posA strA)) (drop posA strA)) of
                    None \<Rightarrow> Inl (CantConvert (take (digitRunLen (drop posA strA)) (drop posA strA)))
                  | Some valA \<Rightarrow>
                      (case Atoi (take (digitRunLen (drop posB strB)) (drop posB strB)) of
                         None \<Rightarrow> Inl (CantConvert (take (digitRunLen (drop posA strA)) (drop posA strA)))
                       | Some valB \<Rightarrow>
                           if valA \<noteq> valB then Inr (valA < valB)
                           else if digitRunLen (drop posA strA) \<noteq> digitRunLen (drop posB strB)
                             then Inr (digitRunLen (drop posA strA) < digitRunLen (drop posB strB))
                           else if length (drop posA strA) \<le> digitRunLen (drop posA strA)
                                   \<or> length (drop posB strB) \<le> digitRunLen (drop posB strB)
                             then Inr True
                           else naturalLess (drop (digitRunLen (drop posA strA)) (drop posA strA))
                                  (drop (digitRunLen (drop posB strB)) (drop posB strB))))))"
  by (subst naturalLess.simps) (simp add: Let_def digitRunLen_def cong: option.case_cong if_cong)

lemma digitRunsParse_step:
  assumes "digitRunsParse s" and "IndexFunc s IsDigit = Some p"
  shows "\<exists>v. Atoi (take (digitRunLen (drop p s)) (drop p s)) = Some v"
    and "digitRunsParse (drop (digitRunLen (drop p s)) (drop p s))"
  using assms by (subst (asm) digitRunsParse.simps, simp add: Let_def)+

lemma digit_run_shorter:
  assumes "IndexFunc s IsDigit = Some p"
  shows "length (drop (digitRunLen (drop p s)) (drop p s)) < length s"
  using digit_run_positive [OF assms, of "digitRunLen (drop p s)"] IndexFunc_Some_less [OF assms]
  by (auto simp: digitRunLen_def)

lemma naturalLess_parsed:
  "digitRunsParse strA \<Longrightarrow> digitRunsParse strB \<Longrightarrow> \<exists>b. naturalLess strA strB = Inr b"
proof (induction "length strA" arbitrary: strA strB rule: less_induct)
  case less
  show ?case
  proof (cases "IndexFunc strA IsDigit")
    case None
    then show ?thesis by (subst naturalLess_unfold) (auto split: option.split)
  next
    case a: (Some posA)
    show ?thesis
    proof (cases "IndexFunc strB IsDigit")
      case None
      with a show ?thesis by (subst naturalLess_unfold) auto
    next
      case b: (Some posB)
      from digitRunsParse_step [OF less.prems(1) a] obtain valA where
        va: "Atoi (take (digitRunLen (drop posA strA)) (drop posA strA)) = Some valA"
        and ra: "digitRunsParse (drop (digitRunLen (drop posA strA)) (drop posA strA))" by auto
      from digitRunsParse_step [OF less.prems(2) b] obtain valB where
        vb: "Atoi (take (digitRunLen (drop posB strB)) (drop posB strB)) = Some valB"
        and rb: "digitRunsParse (drop (digitRunLen (drop posB strB)) (drop posB strB))" by auto
      from less.hyps [OF digit_run_shorter [OF a] ra rb]
      have "\<exists>b. naturalLess (drop (digitRunLen (drop posA strA)) (drop posA strA))
                  (drop (digitRunLen (drop posB strB)) (drop posB strB)) = Inr b" .
      with a b va vb show ?thesis by (subst naturalLess_unfold) auto
    qed
  qed
qed

lemma hasDigit_iff: "hasDigit s \<longleftrightarrow> IndexFunc s IsDigit \<noteq> None"
  by (simp add: hasDigit_def IndexFunc_None_iff)

lemma naturalLess_rejected_run:
  assumes "hasDigit strA" and "hasDigit strB"
    and "nonDigitPrefix strA = nonDigitPrefix strB"
    and "Atoi (firstDigitRun strA) = None \<or> Atoi (firstDigitRun strB) = None"
  shows "naturalLess strA strB = Inl (CantConvert (firstDigitRun strA))"
proof -
  from assms(1) obtain posA where a: "IndexFunc strA IsDigit = Some posA"
    by (auto simp: hasDigit_iff)
  from assms(2) obtain posB where b: "IndexFunc strB IsDigit = Some posB"
    by (auto simp: hasDigit_iff)
  from assms(3) a b have p: "take posA strA = take posB strB" by (simp add: nonDigitPrefix_def)
  let ?runA = "take (digitRunLen (drop posA strA)) (drop posA strA)"
  let ?runB = "take (digitRunLen (drop posB strB)) (drop posB strB)"
  from a have fa: "firstDigitRun strA = ?runA" by (simp add: firstDigitRun_def)
  from b have fb: "firstDigitRun strB = ?runB" by (simp add: firstDigitRun_def)
  have "naturalLess strA strB = Inl (CantConvert ?runA)"
  proof (cases "Atoi ?runA")
    case None
    with a b p show ?thesis by (subst naturalLess_unfold) simp
  next
    case (Some valA)
    with assms(4) fa fb have "Atoi ?runB = None" by simp
    with Some a b p show ?thesis by (subst naturalLess_unfold) simp
  qed
  with fa show ?thesis by simp
qed

text \<open>
  Claim C4, amended: the comparison always terminates (\<open>naturalLess\<close> is a total
  function), and it returns a boolean whenever every digit run of both strings is
  accepted by the integer parser, that is, consists of ASCII digits with a value of at
  most \<open>2^63 - 1\<close>. The branch of the parse failure is reached, and the comparison
  panics, whenever both strings contain a digit, the texts before their first digits
  are equal and the first digit run of either string is rejected by the parser.
\<close>

theorem naturalLess_returns:
  "(digitRunsParse strA \<and> digitRunsParse strB \<longrightarrow> (\<exists>b. naturalLess strA strB = Inr b)) \<and>
   (hasDigit strA \<and> hasDigit strB \<and> nonDigitPrefix strA = nonDigitPrefix strB \<and>
    (Atoi (firstDigitRun strA) = None \<or> Atoi (firstDigitRun strB) = None) \<longrightarrow>
      naturalLess strA strB = Inl (CantConvert (firstDigitRun strA)))"
  using naturalLess_parsed [of strA strB] naturalLess_rejected_run [of strA strB] by blast

text \<open>
  Claim C3, as the code has it: when exactly one of the two strings contains a digit,
  the string with the digit is the lesser one and the digit-free string is not,
  whatever the text before the first digit is. The non-digit prefixes are not compared
  in that case.
\<close>

theorem naturalLess_one_digit_free:
  "\<not> hasDigit strA \<Longrightarrow> hasDigit strB \<Longrightarrow>
     naturalLess strA strB = Inr False \<and> naturalLess strB strA = Inr True"
  by (auto simp: hasDigit_iff naturalLess_unfold [of strA strB] naturalLess_unfold [of strB strA])

theorem naturalLess_one_digit_free_witness:
  "\<not> hasDigit ''a'' \<and> hasDigit ''b1'' \<and>
   naturalLess ''a'' ''b1'' = Inr False \<and> naturalLess ''b1'' ''a'' = Inr True"
proof -
  have a: "\<not> hasDigit ''a''" by code_simp
  have b: "hasDigit ''b1''" by code_simp
  from naturalLess_one_digit_free [OF a b] a b show ?thesis by simp
qed

text \<open>
  Claim C3 as stated fails: for \<open>a\<close> and \<open>b1\<close> the non-digit prefixes \<open>a\<close> and
  \<open>b\<close> differ and \<open>a\<close> is the smaller text, yet the comparator puts \<open>b1\<close> first.
\<close>

theorem prefix_comparison_counterexample:
  "\<not> hasDigit ''a'' \<and> hasDigit ''b1'' \<and> nonDigitPrefix ''a'' \<noteq> nonDigitPrefix ''b1'' \<and>
   nonDigitPrefix ''a'' < nonDigitPrefix ''b1'' \<and>
   naturalLess ''a'' ''b1'' = Inr False \<and> naturalLess ''b1'' ''a'' = Inr True"
  by code_simp

text \<open>
  Claim C4 as stated fails: the digit run 9223372036854775808 does not fit a 64-bit
  \<^verbatim>\<open>int\<close>, \<^verbatim>\<open>strconv.Atoi\<close> reports an error and the comparison panics.
\<close>

theorem naturalLess_panics_counterexample:
  "naturalLess ''9223372036854775808'' ''1'' = Inl (CantConvert ''9223372036854775808'')"
  by code_simp

theorem naturalLess_returns_witness:
  "digitRunsParse ''file10.mp3'' \<and> digitRunsParse ''file2.mp3'' \<and>
   (\<exists>b. naturalLess ''file10.mp3'' ''file2.mp3'' = Inr b) \<and>
   hasDigit ''cd9223372036854775808'' \<and> hasDigit ''cd2'' \<and>
   nonDigitPrefix ''cd9223372036854775808'' = nonDigitPrefix ''cd2'' \<and>
   Atoi (firstDigitRun ''cd9223372036854775808'') = None \<and>
   naturalLess ''cd9223372036854775808'' ''cd2'' = Inl (CantConvert ''9223372036854775808'')"
proof -
  have a: "digitRunsParse ''file10.mp3''" by code_simp
  have b: "digitRunsParse ''file2.mp3''" by code_simp
  have c: "hasDigit ''cd9223372036854775808''" by code_simp
  have d: "hasDigit ''cd2''" by code_simp
  have e: "nonDigitPrefix ''cd9223372036854775808'' = nonDigitPrefix ''cd2''" by code_simp
  have f: "Atoi (firstDigitRun ''cd9223372036854775808'') = None" by code_simp
  have g: "firstDigitRun ''cd9223372036854775808'' = ''9223372036854775808''" by code_simp
  from naturalLess_returns [of "''file10.mp3''" "''file2.mp3''"] a b
  have r: "\<exists>b. naturalLess ''file10.mp3'' ''file2.mp3'' = Inr b" by blast
  from naturalLess_returns [of "''cd9223372036854775808''" "''cd2''"] c d e f g
  have "naturalLess ''cd9223372036854775808'' ''cd2'' = Inl (CantConvert ''9223372036854775808'')"
    by simp
  with a b c d e f r show ?thesis by blast
qed

lemma endsWithDigit_hasDigit: "endsWithDigit s \<Longrightarrow> hasDigit s"
  by (auto simp: endsWithDigit_def hasDigit_def list_ex_iff intro: last_in_set)

lemma endsWithDigit_drop:
  "IndexFunc s f = Some p \<Longrightarrow> endsWithDigit s \<Longrightarrow> endsWithDigit (drop p s)"
  using IndexFunc_Some_last [of s f p] by (simp add: endsWithDigit_def)

lemma digitRunLen_cases:
  "digitRunLen s < length s \<Longrightarrow> IndexFunc s isNonDigit = Some (digitRunLen s)"
  by (auto simp: digitRunLen_def split: option.splits)

lemma naturalLess_self_digit_end:
  "digitRunsParse s \<Longrightarrow> endsWithDigit s \<Longrightarrow> naturalLess s s = Inr True"
proof (induction "length s" arbitrary: s rule: less_induct)
  case less
  from endsWithDigit_hasDigit [OF less.prems(2)] obtain p where p: "IndexFunc s IsDigit = Some p"
    by (auto simp: hasDigit_iff)
  let ?s1 = "drop p s"
  let ?q = "digitRunLen ?s1"
  from digitRunsParse_step [OF less.prems(1) p] obtain v where
    v: "Atoi (take ?q ?s1) = Some v" and r: "digitRunsParse (drop ?q ?s1)" by auto
  show ?case
  proof (cases "length ?s1 \<le> ?q")
    case True
    with p v show ?thesis by (subst naturalLess_unfold) simp
  next
    case False
    then have "IndexFunc ?s1 isNonDigit = Some ?q" by (simp add: digitRunLen_cases)
    from endsWithDigit_drop [OF this endsWithDigit_drop [OF p less.prems(2)]]
    have "endsWithDigit (drop ?q ?s1)" .
    from less.hyps [OF digit_run_shorter [OF p] r this]
    have "naturalLess (drop ?q ?s1) (drop ?q ?s1) = Inr True" .
    with p v False show ?thesis by (subst naturalLess_unfold) simp
  qed
qed

text \<open>
  Claim C10, amended: a string whose digit runs all parse and whose last rune is a
  digit compares as less than itself, and a string with no digit does not; so the
  comparator is not irreflexive.
\<close>

theorem naturalLess_self:
  "(digitRunsParse s \<and> endsWithDigit s \<longrightarrow> naturalLess s s = Inr True) \<and>
   (\<not> hasDigit s \<longrightarrow> naturalLess s s = Inr False)"
  using naturalLess_self_digit_end [of s]
  by (auto simp: hasDigit_iff naturalLess_unfold [of s s])

theorem naturalLess_self_witness:
  "digitRunsParse ''track1'' \<and> endsWithDigit ''track1'' \<and> naturalLess ''track1'' ''track1'' = Inr True \<and>
   \<not> hasDigit ''intro'' \<and> naturalLess ''intro'' ''intro'' = Inr False"
proof -
  have a: "digitRunsParse ''track1'' \<and> endsWithDigit ''track1''" by code_simp
  have b: "\<not> hasDigit ''intro''" by code_simp
  from naturalLess_self [of "''track1''"] naturalLess_self [of "''intro''"] a b
  show ?thesis by blast
qed

text \<open>
  Claim C10 as stated fails: 9223372036854775808 ends with a digit, and comparing it
  with itself panics instead of answering "less".
\<close>

theorem naturalLess_self_counterexample:
  "''9223372036854775808'' \<noteq> [] \<and> endsWithDigit ''9223372036854775808'' \<and>
   naturalLess ''9223372036854775808'' ''9223372036854775808'' \<noteq> Inr True"
  by code_simp

section \<open>The walk\<close>

lemma matchGlobs_eq:
  "matchGlobs dir p found fileGlobs =
     found @ (if matchesAny fileGlobs p then [recordOf dir p] else [])"
  by (induction fileGlobs) (auto simp: matchesAny_def recordOf_def)

lemma visit_file:
  "visit dir fileGlobs found p (Some False) None =
     (found @ map (recordOf dir) (filter (matchesAny fileGlobs) [p]), None)"
  by (simp add: visit_def matchGlobs_eq)

lemma visit_dir: "visit dir fileGlobs found p (Some True) None = (found, None)"
  by (simp add: visit_def)

lemma walk_readable:
  "readable d \<Longrightarrow>
     walkDir (visit dir fileGlobs) nm d found =
       (found @ map (recordOf dir) (filter (matchesAny fileGlobs) (filesOf nm d)), None)"
  "readableEntries es \<Longrightarrow>
     walkEntries (visit dir fileGlobs) nm es found =
       (found @ map (recordOf dir) (filter (matchesAny fileGlobs) (filesOfEntries nm es)), None)"
proof (induction nm d and nm es arbitrary: found and found rule: filesOf_filesOfEntries.induct)
  case (1 nm)
  show ?case by (simp add: walkDir.simps visit_file)
next
  case (2 nm es)
  then show ?case by (simp add: walkDir.simps visit_dir)
next
  case (3 nm es err)
  then show ?case by simp
next
  case (4 nm)
  show ?case by (simp add: walkEntries.simps)
next
  case (5 nm n d es)
  then show ?case by (simp add: walkEntries.simps)
qed

lemma searchRecords_readable:
  assumes "readable t"
  shows "searchRecords dir (Inr t) fileGlobs =
           (if list_ex (matchesAny fileGlobs) (filesOf ''.'' t)
            then Inr (map (recordOf dir) (filter (matchesAny fileGlobs) (filesOf ''.'' t)))
            else Inl errNoFilesFound)"
  using walk_readable(1) [OF assms, of dir fileGlobs "''.''" "[]"]
  by (auto simp: searchRecords_def WalkDir_def list_ex_iff filter_empty_conv)

section \<open>Literal chunks\<close>

lemma matchChunkLoop_plain:
  "list_all plain chunk \<Longrightarrow>
     matchChunkLoop chunk s failed =
       Inr (if \<not> failed \<and> take (length chunk) s = chunk then (drop (length chunk) s, True)
            else ([], False))"
proof (induction chunk arbitrary: s failed)
  case Nil
  then show ?case by (simp add: matchChunkLoop.simps [of "[]"])
next
  case (Cons c chunk)
  then have c: "plain c" and r: "list_all plain chunk" by simp_all
  show ?case
  proof (cases s)
    case Nil
    with c Cons.IH [OF r] show ?thesis
      by (simp add: matchChunkLoop.simps [of "c # chunk"] plain_def)
  next
    case (Cons x xs)
    with c Cons.IH [OF r] show ?thesis
      by (auto simp: matchChunkLoop.simps [of "c # chunk"] plain_def)
  qed
qed

lemma starLoop_plain_unfold:
  "list_all plain chunk \<Longrightarrow>
     starLoop chunk pattern nm i =
       (if i < length nm \<and> nm ! i \<noteq> Separator then
          (if take (length chunk) (drop (Suc i) nm) = chunk then
             (if pattern = [] \<and> drop (length chunk) (drop (Suc i) nm) \<noteq> []
                then starLoop chunk pattern nm (Suc i)
              else Inr (Some (drop (length chunk) (drop (Suc i) nm))))
           else starLoop chunk pattern nm (Suc i))
        else Inr None)"
  by (subst starLoop.simps) (simp add: matchChunk_def matchChunkLoop_plain)

lemma starLoop_plain:
  assumes "list_all plain chunk"
  shows "starLoop chunk [] nm i = Inr (Some t) \<Longrightarrow> Separator \<in> set (drop i nm) \<Longrightarrow>
           Separator \<in> set chunk"
proof (induction "length nm - i" arbitrary: i rule: less_induct)
  case less
  from less.prems(1) have i: "i < length nm" "nm ! i \<noteq> Separator"
    by (auto simp: starLoop_plain_unfold [OF assms, of "[]" nm i] split: if_splits)
  then have d: "drop i nm = nm ! i # drop (Suc i) nm" by (simp add: Cons_nth_drop_Suc)
  with less.prems(2) i have s: "Separator \<in> set (drop (Suc i) nm)" by auto
  from i have m: "length nm - Suc i < length nm - i" by simp
  show ?case
  proof (cases "starLoop chunk [] nm (Suc i) = Inr (Some t)")
    case True
    from less.hyps [OF m True s] show ?thesis .
  next
    case False
    with less.prems(1) i have "take (length chunk) (drop (Suc i) nm) = chunk"
      and "drop (length chunk) (drop (Suc i) nm) = []"
      by (auto simp: starLoop_plain_unfold [OF assms, of "[]" nm i] split: if_splits)
    then have "drop (Suc i) nm = chunk" by (metis append_Nil2 append_take_drop_id)
    with s show ?thesis by simp
  qed
qed

lemma starLoop_plain_no_error:
  assumes "list_all plain chunk"
  shows "starLoop chunk pattern nm i \<noteq> Inl err"
proof (induction "length nm - i" arbitrary: i rule: less_induct)
  case less
  show ?case
  proof (cases "i < length nm \<and> nm ! i \<noteq> Separator")
    case True
    then have "length nm - Suc i < length nm - i" by linarith
    from less.hyps [OF this] show ?thesis
      by (auto simp: starLoop_plain_unfold [OF assms, of pattern nm i])
  next
    case False
    then show ?thesis by (auto simp: starLoop_plain_unfold [OF assms, of pattern nm i])
  qed
qed

lemma scanChunk_mp3: "scanChunk ''*.mp3'' = (True, ''.mp3'', [])"
  by code_simp

lemma plain_mp3: "list_all plain ''.mp3''"
  by code_simp

lemma Match_mp3_separator:
  assumes "Separator \<in> set p"
  shows "Match ''*.mp3'' p = Inr False"
proof -
  have sep: "Separator \<notin> set ''.mp3''" by code_simp
  have m: "Match [] [] = Inr True" by (simp add: Match.simps)
  have notall: "\<not> (take 4 p = ''.mp3'' \<and> drop 4 p = [])"
  proof
    assume "take 4 p = ''.mp3'' \<and> drop 4 p = []"
    then have "p = ''.mp3''" by (metis append_Nil2 append_take_drop_id)
    with assms sep show False by simp
  qed
  have "starLoop ''.mp3'' [] p 0 = Inr None"
  proof (cases "starLoop ''.mp3'' [] p 0")
    case (Inl err)
    with starLoop_plain_no_error [OF plain_mp3] show ?thesis by simp
  next
    case (Inr r)
    show ?thesis
    proof (cases r)
      case None
      with Inr show ?thesis by simp
    next
      case (Some t)
      with Inr starLoop_plain [OF plain_mp3, of p 0 t] assms sep show ?thesis by simp
    qed
  qed
  with notall show ?thesis
    by (subst Match.simps)
      (auto simp: scanChunk_mp3 matchChunk_def matchChunkLoop_plain [OF plain_mp3])
qed

section \<open>Registration\<close>

lemma parseGlobFlags_rejects:
  "pattern \<in> set gs \<Longrightarrow> isl (Match pattern []) \<Longrightarrow> isl (parseGlobFlags fileGlobs gs)"
proof (induction gs arbitrary: fileGlobs)
  case Nil
  then show ?case by simp
next
  case (Cons g gs)
  show ?case
  proof (cases "registerGlob fileGlobs g")
    case (Inl err)
    then show ?thesis by simp
  next
    case (Inr fileGlobs1)
    then have "\<not> isl (Match g [])" by (auto simp: registerGlob_def split: sum.splits)
    with Cons.prems have "pattern \<in> set gs" by auto
    from Cons.IH [OF this Cons.prems(2)] Inr show ?thesis by simp
  qed
qed

lemma parseGlobFlags_accepts:
  "(\<forall>p \<in> set gs. \<not> isl (Match p [])) \<Longrightarrow> parseGlobFlags fileGlobs gs = Inr (fileGlobs @ gs)"
  by (induction gs arbitrary: fileGlobs) (auto simp: registerGlob_def split: sum.splits)

section \<open>Discovery\<close>

lemma walk_unreadable:
  "\<not> readable d \<Longrightarrow>
     \<exists>found1 err. walkDir (visit dir fileGlobs) nm d found = (found1, Some (OSError err))"
  "\<not> readableEntries es \<Longrightarrow>
     \<exists>found1 err. walkEntries (visit dir fileGlobs) nm es found = (found1, Some (OSError err))"
proof (induction nm d and nm es arbitrary: found and found rule: filesOf_filesOfEntries.induct)
  case (1 nm)
  then show ?case by simp
next
  case (2 nm es)
  then show ?case by (simp add: walkDir.simps visit_dir)
next
  case (3 nm es err)
  show ?case by (simp add: walkDir.simps visit_def)
next
  case (4 nm)
  then show ?case by simp
next
  case (5 nm n d es)
  show ?case
  proof (cases "readable d")
    case True
    with "5.prems" have "\<not> readableEntries es" by simp
    from "5.IH"(2) [OF this] walk_readable(1) [OF True] show ?thesis
      by (simp add: walkEntries.simps)
  next
    case False
    from "5.IH"(1) [OF False, of found] show ?thesis
      by (auto simp: walkEntries.simps)
  qed
qed

lemma searchRecords_unreadable:
  assumes "\<not> readable t"
  shows "\<exists>err. searchRecords dir (Inr t) fileGlobs =
           Inl (Errorf ''walking dir: %w'' [] (Some (OSError err)))"
  using walk_unreadable(1) [OF assms, of dir fileGlobs "''.''" "[]"]
  by (auto simp: searchRecords_def WalkDir_def)

lemma searchRecords_stat_error:
  "searchRecords dir (Inl err) fileGlobs = Inl (Errorf ''walking dir: %w'' [] (Some (OSError err)))"
  by (simp add: searchRecords_def WalkDir_def visit_def)

lemma searchRecords_Inr_readable:
  "searchRecords dir (Inr t) fileGlobs = Inr found \<Longrightarrow> readable t"
  using searchRecords_unreadable [of t dir fileGlobs] by auto

text \<open>
  Claim C7: a tree that is walked to the end with no file matching any pattern gives
  the error \<open>errNoFilesFound\<close>, and \<open>searchRecords\<close> never returns an empty list of
  records.
\<close>

theorem searchRecords_no_files_found:
  "(readable t \<and> \<not> list_ex (matchesAny fileGlobs) (filesOf ''.'' t) \<longrightarrow>
      searchRecords dir (Inr t) fileGlobs = Inl errNoFilesFound) \<and>
   searchRecords dir fsys fileGlobs \<noteq> Inr []"
  by (auto simp: searchRecords_readable) (auto simp: searchRecords_def split: prod.splits option.splits if_splits)

theorem searchRecords_no_files_found_witness:
  "readable (Dir [(''cover.jpg'', File), (''notes'', Dir [(''a.txt'', File)])]) \<and>
   \<not> list_ex (matchesAny [''*.mp3''])
        (filesOf ''.'' (Dir [(''cover.jpg'', File), (''notes'', Dir [(''a.txt'', File)])])) \<and>
   searchRecords ''book1'' (Inr (Dir [(''cover.jpg'', File), (''notes'', Dir [(''a.txt'', File)])]))
     [''*.mp3''] = Inl errNoFilesFound"
proof -
  let ?t = "Dir [(''cover.jpg'', File), (''notes'', Dir [(''a.txt'', File)])]"
  have a: "readable ?t" by code_simp
  have b: "\<not> list_ex (matchesAny [''*.mp3'']) (filesOf ''.'' ?t)" by code_simp
  from searchRecords_no_files_found [of ?t "[''*.mp3'']" "''book1''"] a b show ?thesis by blast
qed

text \<open>
  Claim C5: the entry name is the sanitized directory followed by the flattened
  relative path. For the directory \<open>book1\<close> and the path \<open>disc1/track02.mp3\<close> it is
  \<open>book1_disc1_track02.mp3\<close>, also as \<open>searchRecords\<close> builds it; for the directory
  \<open>.\<close> the prefix is empty and the name is the flattened path alone.
\<close>

theorem flatten_book1:
  "sanitizeDirPrefix ''book1'' @ flattenPath ''disc1/track02.mp3'' = ''book1_disc1_track02.mp3'' \<and>
   searchRecords ''book1'' (Inr (Dir [(''disc1'', Dir [(''track02.mp3'', File)])])) [''*.mp3'', ''*/*.mp3'']
     = Inr [\<lparr>path = ''book1/disc1/track02.mp3'', name = ''book1_disc1_track02.mp3''\<rparr>] \<and>
   sanitizeDirPrefix ''.'' @ flattenPath rel = flattenPath rel \<and>
   name (recordOf ''.'' rel) = flattenPath rel"
proof -
  have a: "sanitizeDirPrefix ''book1'' @ flattenPath ''disc1/track02.mp3'' = ''book1_disc1_track02.mp3''"
    by code_simp
  have b: "searchRecords ''book1'' (Inr (Dir [(''disc1'', Dir [(''track02.mp3'', File)])]))
             [''*.mp3'', ''*/*.mp3'']
           = Inr [\<lparr>path = ''book1/disc1/track02.mp3'', name = ''book1_disc1_track02.mp3''\<rparr>]"
    by code_simp
  have c: "sanitizeDirPrefix ''.'' = []" by code_simp
  from a b c show ?thesis by (simp add: recordOf_def)
qed

text \<open>
  Claim C9: with the default pattern alone, a path with a separator in it never
  matches, so the records are those of the matching files directly in the source
  directory.
\<close>

theorem default_glob_top_level_only:
  "(Separator \<in> set p \<longrightarrow> \<not> matchesAny [''*.mp3''] p) \<and>
   (searchRecords dir (Inr t) [''*.mp3''] = Inr found \<longrightarrow>
      found = map (recordOf dir)
                (filter (\<lambda>p. Separator \<notin> set p \<and> matchesAny [''*.mp3''] p) (filesOf ''.'' t)))"
proof -
  have a: "\<And>p. Separator \<in> set p \<Longrightarrow> \<not> matchesAny [''*.mp3''] p"
    by (simp add: matchesAny_def Match_mp3_separator)
  then have "filter (\<lambda>p. Separator \<notin> set p \<and> matchesAny [''*.mp3''] p) (filesOf ''.'' t) =
             filter (matchesAny [''*.mp3'']) (filesOf ''.'' t)"
    by (intro filter_cong) auto
  with a searchRecords_Inr_readable [of dir t "[''*.mp3'']" found]
    searchRecords_readable [of t dir "[''*.mp3'']"]
  show ?thesis by (auto split: if_splits)
qed

theorem default_glob_top_level_only_witness:
  "Separator \<in> set ''disc1/track02.mp3'' \<and> \<not> matchesAny [''*.mp3''] ''disc1/track02.mp3'' \<and>
   searchRecords ''book1'' (Inr (Dir [(''disc1'', Dir [(''track02.mp3'', File)]), (''intro.mp3'', File)]))
     [''*.mp3''] = Inr [\<lparr>path = ''book1/intro.mp3'', name = ''book1_intro.mp3''\<rparr>] \<and>
   [\<lparr>path = ''book1/intro.mp3'', name = ''book1_intro.mp3''\<rparr>] =
     map (recordOf ''book1'')
       (filter (\<lambda>p. Separator \<notin> set p \<and> matchesAny [''*.mp3''] p)
          (filesOf ''.'' (Dir [(''disc1'', Dir [(''track02.mp3'', File)]), (''intro.mp3'', File)])))"
proof -
  let ?t = "Dir [(''disc1'', Dir [(''track02.mp3'', File)]), (''intro.mp3'', File)]"
  let ?found = "[\<lparr>path = ''book1/intro.mp3'', name = ''book1_intro.mp3''\<rparr>]"
  have a: "Separator \<in> set ''disc1/track02.mp3''" by code_simp
  have b: "searchRecords ''book1'' (Inr ?t) [''*.mp3''] = Inr ?found" by code_simp
  from default_glob_top_level_only [of "''disc1/track02.mp3''" "''book1''" ?t ?found] a b
  show ?thesis by blast
qed

section \<open>Well-formed trees and their paths\<close>

lemma cleanLoop_Nil: "cleanLoop rooted [] out dotdot = out"
  by (simp add: cleanLoop.simps)

lemma cleanLoop_separator:
  "cleanLoop rooted (Separator # cs) out dotdot = cleanLoop rooted cs out dotdot"
  by (simp add: cleanLoop.simps IsPathSeparator_def)

lemma takeWhile_name:
  assumes "Separator \<notin> set cs" and "rest = [] \<or> hd rest = Separator"
  shows "takeWhile (\<lambda>x. \<not> IsPathSeparator x) (cs @ rest) = cs"
    and "dropWhile (\<lambda>x. \<not> IsPathSeparator x) (cs @ rest) = rest"
proof -
  from assms(1) have a: "\<forall>x \<in> set cs. \<not> IsPathSeparator x" by (auto simp: IsPathSeparator_def)
  from assms(2) have b: "takeWhile (\<lambda>x. \<not> IsPathSeparator x) rest = []"
    "dropWhile (\<lambda>x. \<not> IsPathSeparator x) rest = rest"
    by (cases rest; auto simp: IsPathSeparator_def)+
  from a b show "takeWhile (\<lambda>x. \<not> IsPathSeparator x) (cs @ rest) = cs"
    by simp
  from a b show "dropWhile (\<lambda>x. \<not> IsPathSeparator x) (cs @ rest) = rest"
    by simp
qed

lemma cleanLoop_name:
  assumes "wfName n" and "rest = [] \<or> hd rest = Separator"
  shows "cleanLoop False (n @ rest) out dotdot =
           cleanLoop False rest ((if out \<noteq> [] then out @ [Separator] else out) @ n) dotdot"
proof -
  from assms(1) obtain c cs where n: "n = c # cs" by (cases n) (auto simp: wfName_def)
  from assms(1) n have c: "\<not> IsPathSeparator c" and cs: "Separator \<notin> set cs"
    by (auto simp: wfName_def IsPathSeparator_def)
  have dot: "\<not> (c = CHR ''.'' \<and> (cs @ rest = [] \<or> IsPathSeparator (hd (cs @ rest))))"
  proof
    assume a: "c = CHR ''.'' \<and> (cs @ rest = [] \<or> IsPathSeparator (hd (cs @ rest)))"
    show False
    proof (cases cs)
      case Nil
      with a n assms(1) show False by (simp add: wfName_def)
    next
      case (Cons x xs)
      with a cs show False by (auto simp: IsPathSeparator_def)
    qed
  qed
  have dotdot: "\<not> (c = CHR ''.'' \<and> hd (cs @ rest) = CHR ''.'' \<and>
                  (tl (cs @ rest) = [] \<or> IsPathSeparator (hd (tl (cs @ rest)))))"
  proof
    assume a: "c = CHR ''.'' \<and> hd (cs @ rest) = CHR ''.'' \<and>
                  (tl (cs @ rest) = [] \<or> IsPathSeparator (hd (tl (cs @ rest))))"
    show False
    proof (cases cs)
      case Nil
      with a n assms show False by (auto simp: wfName_def Separator_def)
    next
      case (Cons x xs)
      show False
      proof (cases xs)
        case Nil
        with a n Cons assms(1) show False by (simp add: wfName_def)
      next
        case c2: (Cons y ys)
        with a Cons cs show False by (auto simp: IsPathSeparator_def)
      qed
    qed
  qed
  have "cleanLoop False (c # (cs @ rest)) out dotdot =
          cleanLoop False (dropWhile (\<lambda>x. \<not> IsPathSeparator x) (cs @ rest))
            ((if False \<and> length out \<noteq> 1 \<or> \<not> False \<and> length out \<noteq> 0
              then out @ [Separator] else out)
             @ c # takeWhile (\<lambda>x. \<not> IsPathSeparator x) (cs @ rest)) dotdot"
    by (simp only: cleanLoop.simps(2) [of False c "cs @ rest" out dotdot] c dot dotdot
        if_False Let_def)
  then show ?thesis by (simp add: n takeWhile_name [OF cs assms(2)])
qed

lemma strings_Join_Cons:
  "ns \<noteq> [] \<Longrightarrow> strings_Join (n # ns) sep = n @ sep @ strings_Join ns sep"
  by (cases ns) simp_all

lemma strings_Join_nonempty: "n \<noteq> [] \<Longrightarrow> strings_Join (n # ns) sep \<noteq> []"
  by (cases ns) simp_all

lemma strings_Join_snoc:
  "ns \<noteq> [] \<Longrightarrow> strings_Join (ns @ [n]) sep = strings_Join ns sep @ sep @ n"
  by (induction ns sep rule: strings_Join.induct) (simp_all add: strings_Join_Cons)

lemma cleanLoop_names:
  "ns \<noteq> [] \<Longrightarrow> list_all wfName ns \<Longrightarrow>
     cleanLoop False (strings_Join ns ''/'') out dotdot =
       (if out \<noteq> [] then out @ [Separator] else out) @ strings_Join ns ''/''"
proof (induction ns arbitrary: out)
  case Nil
  then show ?case by simp
next
  case (Cons n ns)
  then have n: "wfName n" by simp
  show ?case
  proof (cases "ns = []")
    case True
    with cleanLoop_name [OF n, of "[]" out dotdot] show ?thesis by (simp add: cleanLoop_Nil)
  next
    case False
    let ?rest = "''/'' @ strings_Join ns ''/''"
    have r: "?rest = [] \<or> hd ?rest = Separator" by (simp add: Separator_def)
    from n have ne: "n \<noteq> []" by (simp add: wfName_def)
    from Cons.prems False have "list_all wfName ns" by simp
    from Cons.IH [OF False this, of "(if out \<noteq> [] then out @ [Separator] else out) @ n"] ne
      cleanLoop_name [OF n r, of out dotdot]
    show ?thesis
      using cleanLoop_separator [of False "strings_Join ns ''/''"]
      by (simp add: strings_Join_Cons [OF False] Separator_def)
  qed
qed

lemma Clean_names:
  assumes "ns \<noteq> []" and "list_all wfName ns"
  shows "Clean (strings_Join ns ''/'') = strings_Join ns ''/''"
proof -
  obtain n ms where ns: "ns = n # ms" using assms(1) by (cases ns) auto
  with assms(2) have n: "wfName n" by simp
  then obtain c cs where c: "n = c # cs" "c \<noteq> Separator" by (cases n) (auto simp: wfName_def)
  then have h: "strings_Join ns ''/'' \<noteq> []" "hd (strings_Join ns ''/'') = c"
    by (cases ms; simp add: ns)+
  with c cleanLoop_names [OF assms, of "[]" 0] show ?thesis
    by (simp add: Clean_def IsPathSeparator_def Let_def)
qed

lemma path_Join_pathOf:
  assumes "list_all wfName ns" and "wfName n"
  shows "path_Join [pathOf ns, n] = pathOf (ns @ [n])"
proof (cases "ns = []")
  case True
  from assms(2) have ne: "n \<noteq> []" by (simp add: wfName_def)
  have "Clean (''./'' @ n) = n"
    using cleanLoop_name [OF assms(2), of "[]" "[]" 0] ne
    by (simp add: Clean_def IsPathSeparator_def Separator_def Let_def cleanLoop_Nil
        cleanLoop.simps(2) [of False "CHR ''.''"] cleanLoop.simps(2) [of False "CHR ''/''"])
  with True ne show ?thesis by (simp add: path_Join_def pathOf_def)
next
  case False
  from assms have w: "list_all wfName (ns @ [n])" by simp
  from assms(2) have ne: "n \<noteq> []" by (simp add: wfName_def)
  from False assms(1) have "strings_Join ns ''/'' \<noteq> []"
    by (cases ns) (auto simp: wfName_def strings_Join_nonempty)
  with False ne Clean_names [OF _ w] show ?thesis
    by (simp add: path_Join_def pathOf_def strings_Join_snoc)
qed

lemma filesOf_fileNames:
  "wfTree d \<Longrightarrow> list_all wfName pre \<Longrightarrow>
     filesOf (pathOf pre) d = map (\<lambda>ns. pathOf (pre @ ns)) (fileNames d)"
  "wfEntries es \<Longrightarrow> list_all wfName pre \<Longrightarrow>
     filesOfEntries (pathOf pre) es = map (\<lambda>ns. pathOf (pre @ ns)) (fileNamesEntries es)"
proof (induction d and es arbitrary: pre and pre rule: fileNames_fileNamesEntries.induct)
  case (5 n d es)
  from "5.prems" have n: "wfName n" and d: "wfTree d" and es: "wfEntries es" by simp_all
  from "5.prems"(2) n have p: "list_all wfName (pre @ [n])" by simp
  from "5.IH"(1) [OF d p] "5.IH"(2) [OF es "5.prems"(2)] path_Join_pathOf [OF "5.prems"(2) n]
  show ?case by simp
qed simp_all

lemma fileNames_wf:
  "wfTree d \<Longrightarrow> ns \<in> set (fileNames d) \<Longrightarrow> list_all wfName ns"
  "wfEntries es \<Longrightarrow> ns \<in> set (fileNamesEntries es) \<Longrightarrow>
     list_all wfName ns \<and> ns \<noteq> [] \<and> hd ns \<in> set (map fst es)"
  by (induction d and es arbitrary: ns and ns rule: fileNames_fileNamesEntries.induct) auto

lemma fileNames_distinct:
  "wfTree d \<Longrightarrow> distinct (fileNames d)"
  "wfEntries es \<Longrightarrow> distinct (fileNamesEntries es)"
proof (induction d and es rule: fileNames_fileNamesEntries.induct)
  case (5 n d es)
  from "5.prems" have n: "n \<notin> set (map fst es)" and d: "wfTree d" and es: "wfEntries es"
    by simp_all
  have "set (map ((#) n) (fileNames d)) \<inter> set (fileNamesEntries es) = {}"
  proof (rule ccontr)
    assume "set (map ((#) n) (fileNames d)) \<inter> set (fileNamesEntries es) \<noteq> {}"
    then obtain ns where a: "ns \<in> set (map ((#) n) (fileNames d))"
      and b: "ns \<in> set (fileNamesEntries es)" by auto
    from a have "hd ns = n" by auto
    with fileNames_wf(2) [OF es b] n show False by simp
  qed
  with "5.IH"(1) [OF d] "5.IH"(2) [OF es] show ?case by (simp add: distinct_map)
qed simp_all

lemma name_append_eq:
  assumes "Separator \<notin> set n" and "Separator \<notin> set m"
    and "r = [] \<or> hd r = Separator" and "s = [] \<or> hd s = Separator"
    and "n @ r = m @ s"
  shows "n = m \<and> r = s"
proof -
  from takeWhile_name(1) [OF assms(1) assms(3)] takeWhile_name(1) [OF assms(2) assms(4)] assms(5)
  have "n = m" by simp
  with assms(5) show ?thesis by simp
qed

lemma strings_Join_inject:
  "list_all wfName ns \<Longrightarrow> list_all wfName ms \<Longrightarrow> ns \<noteq> [] \<Longrightarrow> ms \<noteq> [] \<Longrightarrow>
     strings_Join ns ''/'' = strings_Join ms ''/'' \<Longrightarrow> ns = ms"
proof (induction ns arbitrary: ms)
  case Nil
  then show ?case by simp
next
  case (Cons n ns)
  from Cons.prems obtain m ms1 where ms: "ms = m # ms1" by (cases ms) auto
  from Cons.prems ms have w: "Separator \<notin> set n" "Separator \<notin> set m"
    by (simp_all add: wfName_def)
  let ?r = "if ns = [] then [] else ''/'' @ strings_Join ns ''/''"
  let ?s = "if ms1 = [] then [] else ''/'' @ strings_Join ms1 ''/''"
  have e: "strings_Join (n # ns) ''/'' = n @ ?r" "strings_Join (m # ms1) ''/'' = m @ ?s"
    by (simp_all add: strings_Join_Cons)
  have "?r = [] \<or> hd ?r = Separator" "?s = [] \<or> hd ?s = Separator"
    by (simp_all add: Separator_def)
  from name_append_eq [OF w this] Cons.prems(5) e ms have nm: "n = m" and rs: "?r = ?s" by simp_all
  show ?case
  proof (cases "ns = []")
    case True
    with rs have "ms1 = []" by (auto split: if_splits)
    with True nm ms show ?thesis by simp
  next
    case False
    with rs have m1: "ms1 \<noteq> []" and j: "strings_Join ns ''/'' = strings_Join ms1 ''/''"
      by (auto split: if_splits)
    from Cons.prems ms have "list_all wfName ns" "list_all wfName ms1" by simp_all
    from Cons.IH [OF this False m1 j] nm ms show ?thesis by simp
  qed
qed

lemma pathOf_inject:
  assumes "list_all wfName ns" and "list_all wfName ms" and "pathOf ns = pathOf ms"
  shows "ns = ms"
proof -
  have dot: "\<And>xs. list_all wfName xs \<Longrightarrow> xs \<noteq> [] \<Longrightarrow> strings_Join xs ''/'' \<noteq> ''.''"
  proof
    fix xs :: "string list"
    assume w: "list_all wfName xs" and ne: "xs \<noteq> []" and e: "strings_Join xs ''/'' = ''.''"
    from ne obtain x ys where xs: "xs = x # ys" by (cases xs) auto
    with w have x: "wfName x" by simp
    show False
    proof (cases "ys = []")
      case True
      with e xs x show False by (simp add: wfName_def)
    next
      case False
      from e xs have "length (x @ ''/'' @ strings_Join ys ''/'') = 1"
        by (simp add: strings_Join_Cons [OF False])
      with x show False by (simp add: wfName_def)
    qed
  qed
  show ?thesis
  proof (cases "ns = []")
    case True
    with assms dot [of ms] show ?thesis by (auto simp: pathOf_def split: if_splits)
  next
    case False
    with assms dot [of ns] have "ms \<noteq> []" by (auto simp: pathOf_def split: if_splits)
    with False assms strings_Join_inject [of ns ms] show ?thesis by (simp add: pathOf_def)
  qed
qed

lemma filesOf_distinct:
  assumes "wfTree t"
  shows "distinct (filesOf ''.'' t)"
proof -
  from filesOf_fileNames(1) [OF assms, of "[]"]
  have f: "filesOf ''.'' t = map pathOf (fileNames t)" by (simp add: pathOf_def)
  have "inj_on pathOf (set (fileNames t))"
    by (rule inj_onI) (auto intro: pathOf_inject fileNames_wf(1) [OF assms])
  with fileNames_distinct(1) [OF assms] f show ?thesis by (simp add: distinct_map)
qed

lemma dirsOf_dirNames:
  "wfTree d \<Longrightarrow> list_all wfName pre \<Longrightarrow>
     dirsOf (pathOf pre) d = map (\<lambda>ns. pathOf (pre @ ns)) (dirNames d)"
  "wfEntries es \<Longrightarrow> list_all wfName pre \<Longrightarrow>
     dirsOfEntries (pathOf pre) es = map (\<lambda>ns. pathOf (pre @ ns)) (dirNamesEntries es)"
proof (induction d and es arbitrary: pre and pre rule: dirNames_dirNamesEntries.induct)
  case (5 n d es)
  from "5.prems" have n: "wfName n" and d: "wfTree d" and es: "wfEntries es" by simp_all
  from "5.prems"(2) n have p: "list_all wfName (pre @ [n])" by simp
  from "5.IH"(1) [OF d p] "5.IH"(2) [OF es "5.prems"(2)] path_Join_pathOf [OF "5.prems"(2) n]
  show ?case by simp
qed simp_all

lemma dirNames_wf:
  "wfTree d \<Longrightarrow> ns \<in> set (dirNames d) \<Longrightarrow> list_all wfName ns"
  "wfEntries es \<Longrightarrow> ns \<in> set (dirNamesEntries es) \<Longrightarrow>
     list_all wfName ns \<and> ns \<noteq> [] \<and> hd ns \<in> set (map fst es)"
  by (induction d and es arbitrary: ns and ns rule: dirNames_dirNamesEntries.induct) auto

lemma names_disjoint:
  "wfTree d \<Longrightarrow> set (fileNames d) \<inter> set (dirNames d) = {}"
  "wfEntries es \<Longrightarrow> set (fileNamesEntries es) \<inter> set (dirNamesEntries es) = {}"
proof (induction d and es rule: dirNames_dirNamesEntries.induct)
  case 1
  show ?case by simp
next
  case (2 es)
  then have es: "wfEntries es" by simp
  from fileNames_wf(2) [OF es] have "[] \<notin> set (fileNamesEntries es)" by blast
  with "2.IH" [OF es] show ?case by simp
next
  case (3 es err)
  then have es: "wfEntries es" by simp
  from fileNames_wf(2) [OF es] have "[] \<notin> set (fileNamesEntries es)" by blast
  with "3.IH" [OF es] show ?case by simp
next
  case 4
  show ?case by simp
next
  case (5 n d es)
  from "5.prems" have n: "n \<notin> set (map fst es)" and d: "wfTree d" and es: "wfEntries es"
    by simp_all
  have a: "set (map ((#) n) (fileNames d)) \<inter> set (map ((#) n) (dirNames d)) = {}"
    using "5.IH"(1) [OF d] by auto
  have b: "set (map ((#) n) (fileNames d)) \<inter> set (dirNamesEntries es) = {}"
  proof (rule ccontr)
    assume "set (map ((#) n) (fileNames d)) \<inter> set (dirNamesEntries es) \<noteq> {}"
    then obtain ns where x: "ns \<in> set (map ((#) n) (fileNames d))"
      and y: "ns \<in> set (dirNamesEntries es)" by auto
    from x have "hd ns = n" by auto
    with dirNames_wf(2) [OF es y] n show False by simp
  qed
  have c: "set (fileNamesEntries es) \<inter> set (map ((#) n) (dirNames d)) = {}"
  proof (rule ccontr)
    assume "set (fileNamesEntries es) \<inter> set (map ((#) n) (dirNames d)) \<noteq> {}"
    then obtain ns where x: "ns \<in> set (map ((#) n) (dirNames d))"
      and y: "ns \<in> set (fileNamesEntries es)" by auto
    from x have "hd ns = n" by auto
    with fileNames_wf(2) [OF es y] n show False by simp
  qed
  from a b c "5.IH"(2) [OF es] show ?case by (simp add: Int_Un_distrib Int_Un_distrib2)
qed

lemma files_not_dirs:
  assumes "wfTree t"
  shows "set (filesOf ''.'' t) \<inter> set (dirsOf ''.'' t) = {}"
proof (rule ccontr)
  assume "set (filesOf ''.'' t) \<inter> set (dirsOf ''.'' t) \<noteq> {}"
  then obtain p where f: "p \<in> set (filesOf ''.'' t)" and d: "p \<in> set (dirsOf ''.'' t)" by auto
  from filesOf_fileNames(1) [OF assms, of "[]"] f obtain ns where
    ns: "ns \<in> set (fileNames t)" "p = pathOf ns" by (auto simp: pathOf_def)
  from dirsOf_dirNames(1) [OF assms, of "[]"] d obtain ms where
    ms: "ms \<in> set (dirNames t)" "p = pathOf ms" by (auto simp: pathOf_def)
  from pathOf_inject [OF fileNames_wf(1) [OF assms ns(1)] dirNames_wf(1) [OF assms ms(1)]] ns(2) ms(2)
  have "ns = ms" by simp
  with ns(1) ms(1) names_disjoint(1) [OF assms] show False by auto
qed

text \<open>
  Claim C2: in a tree that the walk reads to its end and where some file matches, the
  discovery succeeds, and whenever it succeeds its records are those of the entries of
  the tree that are not directories and whose path matches at least one pattern, one
  record for each in the order of the walk. No two such entries of a tree have the
  same path and none has the path of a directory, so every matching file has exactly
  one record, and a file that matches no pattern and a directory have none.
\<close>

theorem searchRecords_exact:
  "wfTree t \<Longrightarrow>
     (readable t \<and> list_ex (matchesAny fileGlobs) (filesOf ''.'' t) \<longrightarrow>
        searchRecords dir (Inr t) fileGlobs =
          Inr (map (recordOf dir) (filter (matchesAny fileGlobs) (filesOf ''.'' t)))) \<and>
     (searchRecords dir (Inr t) fileGlobs = Inr found \<longrightarrow>
        found = map (recordOf dir) (filter (matchesAny fileGlobs) (filesOf ''.'' t))) \<and>
     distinct (filesOf ''.'' t) \<and>
     set (filesOf ''.'' t) \<inter> set (dirsOf ''.'' t) = {}"
proof -
  assume wf: "wfTree t"
  have a: "readable t \<and> list_ex (matchesAny fileGlobs) (filesOf ''.'' t) \<longrightarrow>
        searchRecords dir (Inr t) fileGlobs =
          Inr (map (recordOf dir) (filter (matchesAny fileGlobs) (filesOf ''.'' t)))"
    by (simp add: searchRecords_readable)
  have b: "searchRecords dir (Inr t) fileGlobs = Inr found \<longrightarrow>
        found = map (recordOf dir) (filter (matchesAny fileGlobs) (filesOf ''.'' t))"
    using searchRecords_Inr_readable [of dir t fileGlobs found]
      searchRecords_readable [of t dir fileGlobs]
    by (auto split: if_splits)
  from a b filesOf_distinct [OF wf] files_not_dirs [OF wf] show ?thesis by blast
qed

theorem searchRecords_exact_witness:
  "wfTree (Dir [(''cover.jpg'', File), (''disc1'', Dir [(''track02.mp3'', File)]), (''intro.mp3'', File)]) \<and>
   readable (Dir [(''cover.jpg'', File), (''disc1'', Dir [(''track02.mp3'', File)]), (''intro.mp3'', File)]) \<and>
   list_ex (matchesAny [''*.mp3'', ''*/*.mp3'', ''intro.*''])
     (filesOf ''.'' (Dir [(''cover.jpg'', File), (''disc1'', Dir [(''track02.mp3'', File)]),
                         (''intro.mp3'', File)])) \<and>
   searchRecords ''book1''
     (Inr (Dir [(''cover.jpg'', File), (''disc1'', Dir [(''track02.mp3'', File)]), (''intro.mp3'', File)]))
     [''*.mp3'', ''*/*.mp3'', ''intro.*'']
   = Inr (map (recordOf ''book1'')
       (filter (matchesAny [''*.mp3'', ''*/*.mp3'', ''intro.*''])
         (filesOf ''.'' (Dir [(''cover.jpg'', File), (''disc1'', Dir [(''track02.mp3'', File)]),
                             (''intro.mp3'', File)])))) \<and>
   map (recordOf ''book1'')
       (filter (matchesAny [''*.mp3'', ''*/*.mp3'', ''intro.*''])
         (filesOf ''.'' (Dir [(''cover.jpg'', File), (''disc1'', Dir [(''track02.mp3'', File)]),
                             (''intro.mp3'', File)])))
   = [\<lparr>path = ''book1/disc1/track02.mp3'', name = ''book1_disc1_track02.mp3''\<rparr>,
      \<lparr>path = ''book1/intro.mp3'', name = ''book1_intro.mp3''\<rparr>] \<and>
   distinct (filesOf ''.'' (Dir [(''cover.jpg'', File), (''disc1'', Dir [(''track02.mp3'', File)]),
                               (''intro.mp3'', File)])) \<and>
   set (filesOf ''.'' (Dir [(''cover.jpg'', File), (''disc1'', Dir [(''track02.mp3'', File)]),
                           (''intro.mp3'', File)])) \<inter>
   set (dirsOf ''.'' (Dir [(''cover.jpg'', File), (''disc1'', Dir [(''track02.mp3'', File)]),
                          (''intro.mp3'', File)])) = {}"
proof -
  let ?t = "Dir [(''cover.jpg'', File), (''disc1'', Dir [(''track02.mp3'', File)]), (''intro.mp3'', File)]"
  let ?globs = "[''*.mp3'', ''*/*.mp3'', ''intro.*'']"
  let ?found = "[\<lparr>path = ''book1/disc1/track02.mp3'', name = ''book1_disc1_track02.mp3''\<rparr>,
          \<lparr>path = ''book1/intro.mp3'', name = ''book1_intro.mp3''\<rparr>]"
  have a: "wfTree ?t" by code_simp
  have b: "readable ?t" by code_simp
  have c: "list_ex (matchesAny ?globs) (filesOf ''.'' ?t)" by code_simp
  have d: "map (recordOf ''book1'') (filter (matchesAny ?globs) (filesOf ''.'' ?t)) = ?found"
    by code_simp
  from searchRecords_exact [OF a, of ?globs "''book1''" ?found] b c
  have "searchRecords ''book1'' (Inr ?t) ?globs =
          Inr (map (recordOf ''book1'') (filter (matchesAny ?globs) (filesOf ''.'' ?t)))"
    and "distinct (filesOf ''.'' ?t)"
    and "set (filesOf ''.'' ?t) \<inter> set (dirsOf ''.'' ?t) = {}"
    by blast+
  with a b c d show ?thesis by blast
qed

section \<open>The first error ends the run\<close>

lemma writeRecords_appends:
  "writeRecords e ar found = Inr (ar1, err) \<Longrightarrow> \<exists>es. ar1 = ar @ es"
proof (induction found arbitrary: ar)
  case Nil
  then show ?case by simp
next
  case (Cons r found)
  show ?case
  proof (cases "CreateHeader e ar (name r) (path r)")
    case (Some errCreate)
    with Cons.prems show ?thesis by simp
  next
    case None
    obtain written res where c: "copyFileTo e (path r) = (written, res)"
      by (cases "copyFileTo e (path r)")
    show ?thesis
    proof (cases res)
      case NeverReturns
      with None c Cons.prems show ?thesis by simp
    next
      case (Returns err0)
      show ?thesis
      proof (cases err0)
        case (Some x)
        with None c Returns Cons.prems show ?thesis by auto
      next
        case n: None
        with None c Returns Cons.prems
        have "writeRecords e (ar @ [\<lparr>Name = name r, Comment = path r, Data = written\<rparr>]) found
                = Inr (ar1, err)" by simp
        from Cons.IH [OF this] show ?thesis by auto
      qed
    qed
  qed
qed

lemma processDir_appends:
  "processDir e ar dir fileGlobs = Inr (ar1, err) \<Longrightarrow> \<exists>es. ar1 = ar @ es"
  using writeRecords_appends [of e ar _ ar1 err]
  by (auto simp: processDir_def split: sum.splits)

lemma process_first_error:
  "processDir e ar dir fileGlobs = Inr (ar1, Some err) \<Longrightarrow>
     process e ar (dir # dirs) fileGlobs = Inr (ar1, Some (Errorf ''dir %q: %w'' [dir] (Some err)))"
  by simp

lemma process_append:
  "process e ar (ds1 @ ds2) fileGlobs =
     (case process e ar ds1 fileGlobs of
        Inl p \<Rightarrow> Inl p
      | Inr (ar1, Some err) \<Rightarrow> Inr (ar1, Some err)
      | Inr (ar1, None) \<Rightarrow> process e ar1 ds2 fileGlobs)"
  by (induction ds1 arbitrary: ar) (auto split: sum.splits option.splits)

lemma process_appends:
  "process e ar dirs fileGlobs = Inr (ar1, err) \<Longrightarrow> \<exists>es. ar1 = ar @ es"
proof (induction dirs arbitrary: ar)
  case Nil
  then show ?case by simp
next
  case (Cons dir dirs)
  from Cons.prems obtain ar0 err0 where p: "processDir e ar dir fileGlobs = Inr (ar0, err0)"
    by (auto split: sum.splits)
  from processDir_appends [OF p] obtain es0 where es0: "ar0 = ar @ es0" by blast
  show ?case
  proof (cases err0)
    case (Some x)
    with Cons.prems p es0 show ?thesis by auto
  next
    case None
    with Cons.prems p have "process e ar0 dirs fileGlobs = Inr (ar1, err)" by simp
    from Cons.IH [OF this] es0 show ?thesis by auto
  qed
qed

lemma process_dirs_in_order:
  assumes "process e ar (ds1 @ ds2) fileGlobs = Inr (ar2, None)"
  shows "\<exists>es1 es2. process e ar ds1 fileGlobs = Inr (ar @ es1, None) \<and>
           process e (ar @ es1) ds2 fileGlobs = Inr (ar @ es1 @ es2, None) \<and>
           ar2 = ar @ es1 @ es2"
proof -
  from assms obtain ar1 where a: "process e ar ds1 fileGlobs = Inr (ar1, None)"
    and b: "process e ar1 ds2 fileGlobs = Inr (ar2, None)"
    by (auto simp: process_append split: sum.splits option.splits)
  from process_appends [OF a] obtain es1 where "ar1 = ar @ es1" by blast
  moreover from process_appends [OF b] obtain es2 where "ar2 = ar1 @ es2" by blast
  ultimately show ?thesis using a b by auto
qed

lemma process_error:
  "process e ar dirs fileGlobs = Inr (ar1, Some err) \<Longrightarrow>
     \<exists>ds1 dir ds2 ar0 err1.
        dirs = ds1 @ dir # ds2 \<and> process e ar ds1 fileGlobs = Inr (ar0, None) \<and>
        processDir e ar0 dir fileGlobs = Inr (ar1, Some err1) \<and>
        err = Errorf ''dir %q: %w'' [dir] (Some err1)"
proof (induction dirs arbitrary: ar)
  case Nil
  then show ?case by simp
next
  case (Cons d dirs)
  from Cons.prems obtain ar0 err0 where p: "processDir e ar d fileGlobs = Inr (ar0, err0)"
    by (auto split: sum.splits)
  show ?case
  proof (cases err0)
    case (Some x)
    with Cons.prems p have "ar1 = ar0" "err = Errorf ''dir %q: %w'' [d] (Some x)" by simp_all
    with p Some have "d # dirs = [] @ d # dirs \<and> process e ar [] fileGlobs = Inr (ar, None) \<and>
        processDir e ar d fileGlobs = Inr (ar1, Some x) \<and>
        err = Errorf ''dir %q: %w'' [d] (Some x)" by simp
    then show ?thesis by blast
  next
    case None
    with Cons.prems p have "process e ar0 dirs fileGlobs = Inr (ar1, Some err)" by simp
    from Cons.IH [OF this] obtain ds1 dir ds2 ar00 err1 where
      h: "dirs = ds1 @ dir # ds2" "process e ar0 ds1 fileGlobs = Inr (ar00, None)"
        "processDir e ar00 dir fileGlobs = Inr (ar1, Some err1)"
        "err = Errorf ''dir %q: %w'' [dir] (Some err1)" by blast
    from h(1) have "d # dirs = (d # ds1) @ dir # ds2" by simp
    moreover from p None h(2) have "process e ar (d # ds1) fileGlobs = Inr (ar00, None)" by simp
    ultimately show ?thesis using h(3,4) by blast
  qed
qed

lemma process_stops_at_error:
  assumes "process e ar ds1 fileGlobs = Inr (ar0, None)"
    and "processDir e ar0 dir fileGlobs = Inr (ar1, Some err1)"
  shows "process e ar (ds1 @ dir # ds2) fileGlobs =
           Inr (ar1, Some (Errorf ''dir %q: %w'' [dir] (Some err1)))"
  using assms by (simp add: process_append)

section \<open>A bar that is never completed\<close>

text \<open>
  The bar of an empty file has the total 0 and is never completed: the run blocks in
  \<^verbatim>\<open>bar.Wait()\<close> after it has created the entry of the file.
\<close>

lemma empty_file_blocks:
  "process emptyFile [] [''d''] [''*.mp3''] =
     Inl (Blocked [\<lparr>Name = ''d_a.mp3'', Comment = ''d/a.mp3'', Data = []\<rparr>])"
  by code_simp

section \<open>The order of the entries\<close>

text \<open>
  Claim C1 fails on the code: for the directory \<open>d\<close> with the two files of one byte
  and the default pattern, the run ends with an archive that holds \<open>d_a.mp3.mp3\<close>
  before \<open>d_a.mp3\<close>, although the comparator says that \<open>d_a.mp3\<close> is less than
  \<open>d_a.mp3.mp3\<close>. The comparator also says the converse (it answers "less" as soon as
  one string ends after equal digit runs), so neither order of the two records is
  sorted for \<^verbatim>\<open>slices.IsSortedFunc\<close>.
\<close>

theorem double_extension_out_of_order:
  "process doubleExtension [] [''d''] [''*.mp3''] =
     Inr ([\<lparr>Name = ''d_a.mp3.mp3'', Comment = ''d/a.mp3.mp3'', Data = ''x''\<rparr>,
           \<lparr>Name = ''d_a.mp3'', Comment = ''d/a.mp3'', Data = ''x''\<rparr>], None) \<and>
   main doubleExtension ''out.zip'' [] [''d''] =
     Finished [\<lparr>Name = ''d_a.mp3.mp3'', Comment = ''d/a.mp3.mp3'', Data = ''x''\<rparr>,
               \<lparr>Name = ''d_a.mp3'', Comment = ''d/a.mp3'', Data = ''x''\<rparr>] \<and>
   naturalLess ''d_a.mp3'' ''d_a.mp3.mp3'' = Inr True \<and>
   naturalLess ''d_a.mp3.mp3'' ''d_a.mp3'' = Inr True \<and>
   IsSortedFunc [recordOf ''d'' ''a.mp3.mp3'', recordOf ''d'' ''a.mp3''] cmpRecords = Inr False \<and>
   IsSortedFunc [recordOf ''d'' ''a.mp3'', recordOf ''d'' ''a.mp3.mp3''] cmpRecords = Inr False"
  by code_simp

section \<open>The chain of the error\<close>

text \<open>
  Claim C8 fails on the code where \<^verbatim>\<open>Stat\<close> fails: the run stops at the file and the
  second directory is not processed, but the error that comes out wraps nil, and the
  error of \<^verbatim>\<open>Stat\<close> is not in its chain.
\<close>

theorem stat_error_not_propagated:
  "process statFails [] [''d'', ''e''] [''*.mp3''] =
     Inr ([\<lparr>Name = ''d_a.mp3'', Comment = ''d/a.mp3'', Data = []\<rparr>],
          Some (Errorf ''dir %q: %w'' [''d'']
            (Some (Errorf ''writing file to archive: %w'' []
              (Some (Errorf ''unable to open file %q: %w'' [''d/a.mp3''] None)))))) \<and>
   OSError ''EIO'' \<notin> set (chain (Errorf ''dir %q: %w'' [''d'']
            (Some (Errorf ''writing file to archive: %w'' []
              (Some (Errorf ''unable to open file %q: %w'' [''d/a.mp3''] None))))))"
  by code_simp

section \<open>A malformed pattern that is registered\<close>

text \<open>
  Claim C6 fails on the code for the pattern \<open>x*[\<close>, whose bracket is never closed.
  The match against the empty string fails at the chunk \<open>x\<close> and returns false with
  no error, so the flag is accepted and the pattern is registered. The error of the
  pattern comes out at walk time, on the path \<open>xa\<close>, where the callback discards it:
  the file is not recorded and the run ends with "no files found", not with an
  error of the flag.
\<close>

theorem malformed_glob_passes_registration:
  "Match ''x*['' [] = Inr False \<and>
   parseGlobFlags [''*.mp3''] [''x*[''] = Inr [''*.mp3'', ''x*[''] \<and>
   Match ''x*['' ''xa'' = Inl ErrBadPattern \<and>
   searchRecords ''d'' (Inr (Dir [(''xa'', File)])) [''*.mp3'', ''x*[''] = Inl errNoFilesFound \<and>
   main oneFile ''out.zip'' [''x*[''] [''d''] =
     PanicProcessing
       (Errorf ''dir %q: %w'' [''d'']
          (Some (Errorf ''searching files: %w'' [] (Some errNoFilesFound))))"
  by code_simp

end
